theory Spec2Isabelle
  imports Complex_Main
begin

section \<open>Numbers, arrays and return codes\<close>

text \<open>
  The program computes with C \<^verbatim>\<open>double\<close>s. This theory models them twice.

  In the first model, which begins here, they are real numbers with exact arithmetic:
  rounding, overflow, signed zeros and NaN are outside it. It carries the statements on the
  control flow of the program: the check of the radius, the fields written before the
  solvers run, the range guard of the sampler and the sentinel of the segment lengths. The
  library functions \<^verbatim>\<open>sin\<close>, \<^verbatim>\<open>cos\<close>, \<^verbatim>\<open>sqrt\<close>, \<^verbatim>\<open>acos\<close>, \<^verbatim>\<open>floor\<close>, \<^verbatim>\<open>fabs\<close> and \<^verbatim>\<open>fmin\<close> are the
  functions \<open>sin\<close>, \<open>cos\<close>, \<open>sqrt\<close>, \<open>arccos\<close>, \<open>floor\<close>, \<open>abs\<close> and \<open>min\<close> of the reals, and
  \<^verbatim>\<open>M_PI\<close> is \<open>pi\<close>. A division \<^verbatim>\<open>x / y\<close> is the division of the reals; where the divisor can
  be zero in the code the theorems below assume that it is not, or do not use the quotient.

  The second model, on the binary64 numbers of the machine, follows the first; its names
  end in \<open>_f64\<close>. It carries the statements on the choice of the word, on the stored
  parameters, on sub-paths and on stepped sampling, which exact arithmetic decides
  differently from the program.

  The one non-finite value the code names, the macro \<^verbatim>\<open>INFINITY\<close>, is in the first model a
  constructor of its own: a value that is either a real number or \<^verbatim>\<open>INFINITY\<close>.
\<close>

datatype xdouble = Finite real | INFINITY

text \<open>\<^verbatim>\<open>cost < best_cost\<close>, where the left side is a finite number.\<close>

fun less_xdouble :: "real \<Rightarrow> xdouble \<Rightarrow> bool" where
  "less_xdouble c INFINITY = True"
| "less_xdouble c (Finite b) = (c < b)"

text \<open>A \<^verbatim>\<open>double[3]\<close> is a triple; \<open>at3\<close> reads the component at an index in \<open>0..2\<close>.\<close>

type_synonym double3 = "real \<times> real \<times> real"

fun at3 :: "double3 \<Rightarrow> int \<Rightarrow> real" where
  "at3 (a, b, c) i = (if i = 0 then a else if i = 1 then b else c)"

text \<open>
  Modelled from the spec: the header \<^verbatim>\<open>dubins.h\<close> with the return codes, the path record and
  the function types is not among the sources. The return codes are \<^verbatim>\<open>EDUBOK\<close> (success, the
  value \<^verbatim>\<open>0\<close>), \<^verbatim>\<open>EDUBPARAM\<close> (parameter out of range), \<^verbatim>\<open>EDUBBADRHO\<close> (invalid radius) and
  \<^verbatim>\<open>EDUBNOPATH\<close> (no feasible path). A path holds the initial pose \<^verbatim>\<open>qi\<close>, the three segment
  parameters \<^verbatim>\<open>param\<close>, the turning radius \<^verbatim>\<open>rho\<close> and the word \<^verbatim>\<open>type\<close>, an \<^verbatim>\<open>int\<close> index
  into the tables. A \<^verbatim>\<open>DubinsWord\<close> is a solver function, and the sampling callback takes a
  pose, a parameter and the user data and returns an \<^verbatim>\<open>int\<close>.
\<close>

datatype retcode = EDUBOK | EDUBPARAM | EDUBBADRHO | EDUBNOPATH

record DubinsPath =
  qi :: double3
  param :: double3
  rho :: real
  type :: int

text \<open>
  The three segment types, and the indices of the six words. The assertion of
  \<^verbatim>\<open>dubins_segment\<close>, that its type is one of the three, holds by typing.
\<close>

datatype segtype = L_SEG | S_SEG | R_SEG

definition LSL :: int where "LSL = 0"

definition LSR :: int where "LSR = 1"

definition RSL :: int where "RSL = 2"

definition RSR :: int where "RSR = 3"

definition RLR :: int where "RLR = 4"

definition LRL :: int where "LRL = 5"

text \<open>
  The table \<^verbatim>\<open>DIRDATA\<close>. The code indexes it with \<^verbatim>\<open>path->type\<close> unchecked; an index outside
  \<open>0..5\<close> is undefined behaviour in C and unspecified here.
\<close>

definition DIRDATA :: "(segtype \<times> segtype \<times> segtype) list" where
  "DIRDATA =
    [(L_SEG, S_SEG, L_SEG),
     (L_SEG, S_SEG, R_SEG),
     (R_SEG, S_SEG, L_SEG),
     (R_SEG, S_SEG, R_SEG),
     (R_SEG, L_SEG, R_SEG),
     (L_SEG, R_SEG, L_SEG)]"

section \<open>Angle utilities\<close>

text \<open>
  \<^verbatim>\<open>atan2\<close> of the C library on the reals: the angle in \<open>(-pi, pi]\<close> of the point \<open>(x, y)\<close>,
  and \<open>0\<close> at the origin.
\<close>

definition atan2 :: "real \<Rightarrow> real \<Rightarrow> real" where
  "atan2 y x =
    (if 0 < x then arctan (y / x)
     else if x < 0 then (if 0 \<le> y then arctan (y / x) + pi else arctan (y / x) - pi)
     else if 0 < y then pi / 2
     else if y < 0 then - (pi / 2)
     else 0)"

definition fmodr :: "real \<Rightarrow> real \<Rightarrow> real" where
  "fmodr x y = x - y * of_int \<lfloor>x / y\<rfloor>"

definition mod2pi :: "real \<Rightarrow> real" where
  "mod2pi theta = fmodr theta (2 * pi)"

section \<open>Word solvers\<close>

text \<open>
  A solver returns \<^verbatim>\<open>EDUBNOPATH\<close> and leaves its output buffer alone, or returns \<^verbatim>\<open>EDUBOK\<close>
  after writing \<open>t\<close>, \<open>p\<close>, \<open>q\<close> to it: the error is \<open>Inl\<close>, the written triple is \<open>Inr\<close>.
\<close>

type_synonym DubinsWord = "real \<Rightarrow> real \<Rightarrow> real \<Rightarrow> retcode + double3"

definition dubins_LSL :: DubinsWord where
  "dubins_LSL alpha beta d =
    (let sa = sin alpha; sb = sin beta; ca = cos alpha; cb = cos beta;
         c_ab = cos (alpha - beta);
         tmp0 = d + sa - sb;
         p_squared = 2 + (d * d) - (2 * c_ab) + (2 * d * (sa - sb))
     in if p_squared < 0 then Inl EDUBNOPATH
        else
          let tmp1 = atan2 (cb - ca) tmp0;
              t = mod2pi (- alpha + tmp1);
              p = sqrt p_squared;
              q = mod2pi (beta - tmp1)
          in Inr (t, p, q))"

definition dubins_RSR :: DubinsWord where
  "dubins_RSR alpha beta d =
    (let sa = sin alpha; sb = sin beta; ca = cos alpha; cb = cos beta;
         c_ab = cos (alpha - beta);
         tmp0 = d - sa + sb;
         p_squared = 2 + (d * d) - (2 * c_ab) + (2 * d * (sb - sa))
     in if p_squared < 0 then Inl EDUBNOPATH
        else
          let tmp1 = atan2 (ca - cb) tmp0;
              t = mod2pi (alpha - tmp1);
              p = sqrt p_squared;
              q = mod2pi (- beta + tmp1)
          in Inr (t, p, q))"

definition dubins_LSR :: DubinsWord where
  "dubins_LSR alpha beta d =
    (let sa = sin alpha; sb = sin beta; ca = cos alpha; cb = cos beta;
         c_ab = cos (alpha - beta);
         p_squared = - 2 + (d * d) + (2 * c_ab) + (2 * d * (sa + sb))
     in if p_squared < 0 then Inl EDUBNOPATH
        else
          let p = sqrt p_squared;
              tmp2 = atan2 (- ca - cb) (d + sa + sb) - atan2 (- 2) p;
              t = mod2pi (- alpha + tmp2);
              q = mod2pi (- mod2pi beta + tmp2)
          in Inr (t, p, q))"

definition dubins_RSL :: DubinsWord where
  "dubins_RSL alpha beta d =
    (let sa = sin alpha; sb = sin beta; ca = cos alpha; cb = cos beta;
         c_ab = cos (alpha - beta);
         p_squared = (d * d) - 2 + (2 * c_ab) - (2 * d * (sa + sb))
     in if p_squared < 0 then Inl EDUBNOPATH
        else
          let p = sqrt p_squared;
              tmp2 = atan2 (ca + cb) (d - sa - sb) - atan2 2 p;
              t = mod2pi (alpha - tmp2);
              q = mod2pi (beta - tmp2)
          in Inr (t, p, q))"

definition dubins_RLR :: DubinsWord where
  "dubins_RLR alpha beta d =
    (let sa = sin alpha; sb = sin beta; ca = cos alpha; cb = cos beta;
         c_ab = cos (alpha - beta);
         tmp_rlr = (6 - d * d + 2 * c_ab + 2 * d * (sa - sb)) / 8
     in if \<bar>tmp_rlr\<bar> > 1 then Inl EDUBNOPATH
        else
          let p = mod2pi (2 * pi - arccos tmp_rlr);
              t = mod2pi (alpha - atan2 (ca - cb) (d - sa + sb) + mod2pi (p / 2));
              q = mod2pi (alpha - beta - t + mod2pi p)
          in Inr (t, p, q))"

definition dubins_LRL :: DubinsWord where
  "dubins_LRL alpha beta d =
    (let sa = sin alpha; sb = sin beta; ca = cos alpha; cb = cos beta;
         c_ab = cos (alpha - beta);
         tmp_lrl = (6 - d * d + 2 * c_ab + 2 * d * (- sa + sb)) / 8
     in if \<bar>tmp_lrl\<bar> > 1 then Inl EDUBNOPATH
        else
          let p = mod2pi (2 * pi - arccos tmp_lrl);
              t = mod2pi (- alpha - atan2 (ca - cb) (d + sa - sb) + p / 2);
              q = mod2pi (mod2pi beta - alpha - t + mod2pi p)
          in Inr (t, p, q))"

text \<open>The global table \<^verbatim>\<open>dubins_words\<close>, in the order of the word indices.\<close>

definition dubins_words :: "DubinsWord list" where
  "dubins_words =
    [dubins_LSL, dubins_LSR, dubins_RSL, dubins_RSR, dubins_RLR, dubins_LRL]"

section \<open>Path synthesizer\<close>

text \<open>
  The state of the loop of \<^verbatim>\<open>dubins_init_normalised\<close>: the locals \<^verbatim>\<open>best_cost\<close> and
  \<^verbatim>\<open>best_word\<close> and the output path. \<open>init_step\<close> is the loop body at index \<open>i\<close>,
  \<open>init_loop\<close> runs the body over the remaining indices.

  The functions read the global array \<^verbatim>\<open>dubins_words\<close>, which is not declared \<^verbatim>\<open>const\<close>.
  \<open>dubins_init_normalised_with\<close> and \<open>dubins_init_with\<close> are the two function bodies with the
  content \<open>ws\<close> of that array as an argument; \<open>dubins_init_normalised\<close> and \<open>dubins_init\<close>
  are these bodies on the array as it is initialised.
\<close>

record init_state =
  best_cost :: xdouble
  best_word :: int
  out_path :: DubinsPath

definition init_step :: "DubinsWord list \<Rightarrow> real \<Rightarrow> real \<Rightarrow> real \<Rightarrow> nat \<Rightarrow> init_state \<Rightarrow> init_state" where
  "init_step ws alpha beta d i s =
    (case (ws ! i) alpha beta d of
       Inl err \<Rightarrow> s
     | Inr params \<Rightarrow>
         (let cost = at3 params 0 + at3 params 1 + at3 params 2
          in if less_xdouble cost (best_cost s)
             then s\<lparr>best_word := int i,
                    best_cost := Finite cost,
                    out_path := (out_path s)\<lparr>param := params, type := int i\<rparr>\<rparr>
             else s))"

fun init_loop :: "DubinsWord list \<Rightarrow> real \<Rightarrow> real \<Rightarrow> real \<Rightarrow> nat list \<Rightarrow> init_state \<Rightarrow> init_state" where
  "init_loop ws alpha beta d [] s = s"
| "init_loop ws alpha beta d (i # is) s = init_loop ws alpha beta d is (init_step ws alpha beta d i s)"

definition dubins_init_normalised_with :: "DubinsWord list \<Rightarrow> real \<Rightarrow> real \<Rightarrow> real \<Rightarrow> DubinsPath \<Rightarrow> retcode \<times> DubinsPath" where
  "dubins_init_normalised_with ws alpha beta d path =
    (let s = init_loop ws alpha beta d [0..<6]
               \<lparr>best_cost = INFINITY, best_word = - 1, out_path = path\<rparr>
     in if best_word s = - 1 then (EDUBNOPATH, out_path s)
        else (EDUBOK, (out_path s)\<lparr>type := best_word s\<rparr>))"


text \<open>
  \<^verbatim>\<open>dubins_init\<close>: the quotient \<open>d\<close> is computed before the radius is checked, and is not
  used when the check fails.
\<close>

definition dubins_init_with :: "DubinsWord list \<Rightarrow> double3 \<Rightarrow> double3 \<Rightarrow> real \<Rightarrow> DubinsPath \<Rightarrow> retcode \<times> DubinsPath" where
  "dubins_init_with ws q0 q1 rho' path =
    (let dx = at3 q1 0 - at3 q0 0;
         dy = at3 q1 1 - at3 q0 1;
         D = sqrt (dx * dx + dy * dy);
         d = D / rho'
     in if rho' \<le> 0 then (EDUBBADRHO, path)
        else
          let theta = mod2pi (atan2 dy dx);
              alpha = mod2pi (at3 q0 2 - theta);
              beta = mod2pi (at3 q1 2 - theta);
              path1 = path\<lparr>qi := (at3 q0 0, at3 q0 1, at3 q0 2)\<rparr>;
              path2 = path1\<lparr>rho := rho'\<rparr>
          in dubins_init_normalised_with ws alpha beta d path2)"

definition dubins_init :: "double3 \<Rightarrow> double3 \<Rightarrow> real \<Rightarrow> DubinsPath \<Rightarrow> retcode \<times> DubinsPath" where
  "dubins_init = dubins_init_with dubins_words"

section \<open>Lengths\<close>

definition dubins_path_length :: "DubinsPath \<Rightarrow> real" where
  "dubins_path_length path =
    (let length0 = 0;
         length1 = length0 + at3 (param path) 0;
         length2 = length1 + at3 (param path) 1;
         length3 = length2 + at3 (param path) 2
     in length3 * rho path)"

definition dubins_segment_length :: "DubinsPath \<Rightarrow> int \<Rightarrow> xdouble" where
  "dubins_segment_length path i =
    (if i < 0 \<or> i > 2 then INFINITY else Finite (at3 (param path) i * rho path))"

definition dubins_segment_length_normalized :: "DubinsPath \<Rightarrow> int \<Rightarrow> xdouble" where
  "dubins_segment_length_normalized path i =
    (if i < 0 \<or> i > 2 then INFINITY else Finite (at3 (param path) i))"

definition dubins_path_type :: "DubinsPath \<Rightarrow> int" where
  "dubins_path_type path = type path"

section \<open>Segment propagator\<close>

fun dubins_segment :: "real \<Rightarrow> double3 \<Rightarrow> segtype \<Rightarrow> double3" where
  "dubins_segment t q_i L_SEG =
    (at3 q_i 0 + sin (at3 q_i 2 + t) - sin (at3 q_i 2),
     at3 q_i 1 - cos (at3 q_i 2 + t) + cos (at3 q_i 2),
     at3 q_i 2 + t)"
| "dubins_segment t q_i R_SEG =
    (at3 q_i 0 - sin (at3 q_i 2 - t) + sin (at3 q_i 2),
     at3 q_i 1 + cos (at3 q_i 2 - t) - cos (at3 q_i 2),
     at3 q_i 2 - t)"
| "dubins_segment t q_i S_SEG =
    (at3 q_i 0 + cos (at3 q_i 2) * t,
     at3 q_i 1 + sin (at3 q_i 2) * t,
     at3 q_i 2)"

section \<open>Sampler and subdivider\<close>

text \<open>
  \<^verbatim>\<open>dubins_path_sample\<close> takes the caller's buffer \<open>q\<close> and returns it with the return code:
  unchanged when the parameter is out of bounds, overwritten otherwise.
\<close>

definition dubins_path_sample :: "DubinsPath \<Rightarrow> real \<Rightarrow> double3 \<Rightarrow> retcode \<times> double3" where
  "dubins_path_sample path t q =
    (if t < 0 \<or> t \<ge> dubins_path_length path then (EDUBPARAM, q)
     else
       let tprime = t / rho path;
           q_i = (0, 0, at3 (qi path) 2);
           (types0, types1, types2) = DIRDATA ! nat (type path);
           p1 = at3 (param path) 0;
           p2 = at3 (param path) 1;
           q1 = dubins_segment p1 q_i types0;
           q2 = dubins_segment p2 q1 types1;
           q' = (if tprime < p1 then dubins_segment tprime q_i types0
                 else if tprime < p1 + p2 then dubins_segment (tprime - p1) q1 types1
                 else dubins_segment (tprime - p1 - p2) q2 types2)
       in (EDUBOK,
           (at3 q' 0 * rho path + at3 (qi path) 0,
            at3 q' 1 * rho path + at3 (qi path) 1,
            mod2pi (at3 q' 2))))"

definition EPSILON :: real where
  "EPSILON = 10 / 10 ^ 10"

definition dubins_path_endpoint :: "DubinsPath \<Rightarrow> double3 \<Rightarrow> retcode \<times> double3" where
  "dubins_path_endpoint path q = dubins_path_sample path (dubins_path_length path - EPSILON) q"

text \<open>
  A valid path, in the words of the spec: a positive radius, three parameters that are not
  negative, and one of the six words.
\<close>

definition valid_path :: "DubinsPath \<Rightarrow> bool" where
  "valid_path path \<longleftrightarrow>
     0 < rho path \<and> 0 \<le> at3 (param path) 0 \<and> 0 \<le> at3 (param path) 1 \<and> 0 \<le> at3 (param path) 2
     \<and> 0 \<le> type path \<and> type path \<le> 5"

section \<open>Notions used in the statements\<close>

text \<open>
  The cost of a solver's output, \<open>t + p + q\<close>, and the word the loop is to select among the
  first \<open>n\<close> entries of a table: \<open>k\<close> succeeds with output \<open>ps\<close>, no succeeding entry is
  cheaper, and every succeeding entry before \<open>k\<close> is strictly dearer. \<open>loop_inv\<close> is the
  invariant of the selection loop after \<open>n\<close> rounds.
\<close>

definition word_cost :: "double3 \<Rightarrow> real" where
  "word_cost ps = at3 ps 0 + at3 ps 1 + at3 ps 2"

definition first_minimum ::
  "DubinsWord list \<Rightarrow> real \<Rightarrow> real \<Rightarrow> real \<Rightarrow> nat \<Rightarrow> nat \<Rightarrow> double3 \<Rightarrow> bool" where
  "first_minimum ws alpha beta d n k ps \<longleftrightarrow>
     k < n \<and> (ws ! k) alpha beta d = Inr ps
     \<and> (\<forall>j<n. \<forall>ps'. (ws ! j) alpha beta d = Inr ps' \<longrightarrow> word_cost ps \<le> word_cost ps')
     \<and> (\<forall>j<k. \<forall>ps'. (ws ! j) alpha beta d = Inr ps' \<longrightarrow> word_cost ps < word_cost ps')"

definition loop_inv ::
  "DubinsWord list \<Rightarrow> real \<Rightarrow> real \<Rightarrow> real \<Rightarrow> DubinsPath \<Rightarrow> nat \<Rightarrow> init_state \<Rightarrow> bool" where
  "loop_inv ws alpha beta d path n s \<longleftrightarrow>
     ((\<forall>j<n. \<exists>e. (ws ! j) alpha beta d = Inl e)
        \<and> s = \<lparr>best_cost = INFINITY, best_word = - 1, out_path = path\<rparr>)
     \<or> (\<exists>k ps. first_minimum ws alpha beta d n k ps
        \<and> s = \<lparr>best_cost = Finite (word_cost ps), best_word = int k,
                out_path = path\<lparr>param := ps, type := int k\<rparr>\<rparr>)"

section \<open>Binary64 numbers\<close>

text \<open>
  The second model: a \<^verbatim>\<open>double\<close> is an IEEE 754 binary64 value, a finite number, one of the
  two infinities, or NaN. Every operation rounds to nearest, ties to even, and every C
  expression is evaluated in \<^verbatim>\<open>double\<close>, operation by operation in the order of the source
  (no fused multiply-add, no wider intermediate format).

  \<open>Fin x\<close> stands for the binary64 number of value \<open>x\<close>; the operations below produce
  only values that binary64 represents from such values. The two zeros are the one value
  \<open>Fin 0\<close>. Comparisons, sums, differences, products, \<^verbatim>\<open>fmin\<close>, \<^verbatim>\<open>fabs\<close> and \<^verbatim>\<open>floor\<close> give
  numerically equal results on either zero; a quotient by zero and \<^verbatim>\<open>atan2\<close> at a zero
  ordinate do not, and the model takes the zero to be the positive one there. Where a
  statement below depends on a quotient, the divisor is the positive radius of a path or a
  non-zero constant; and where a counterexample evaluates \<^verbatim>\<open>atan2\<close> at a zero ordinate, that
  zero is a difference of two equal numbers, which is the positive zero.
\<close>

datatype f64 = Fin real | PInf | MInf | NaN

text \<open>
  Rounding. \<open>rhe m\<close> is the integer nearest to \<open>m\<close>, the even one of the two when \<open>m\<close> lies
  half way. The binary64 numbers around a real \<open>x \<noteq> 0\<close> are the multiples of the quantum
  \<open>2 powi quantum_exp x\<close>: 53 significant bits, with \<open>- 1074\<close> the exponent of the least
  subnormal number. \<open>rnd x\<close> is the multiple of the quantum nearest to \<open>x\<close>, and the infinity of
  the sign of \<open>x\<close> when that multiple reaches \<open>huge\<close>, which is \<open>2 ^ 1024\<close>.
\<close>

definition rhe :: "real \<Rightarrow> int" where
  "rhe m =
    (let f = \<lfloor>m\<rfloor>; r = m - of_int f
     in if r < 1 / 2 then f
        else if 1 / 2 < r then f + 1
        else if even f then f else f + 1)"

definition quantum_exp :: "real \<Rightarrow> int" where
  "quantum_exp x = max (\<lfloor>log 2 \<bar>x\<bar>\<rfloor> - 52) (- 1074)"

definition huge :: real where
  "huge = 2 ^ 1024"

definition rnd :: "real \<Rightarrow> f64" where
  "rnd x =
    (if x = 0 then Fin 0
     else
       let q = 2 powi quantum_exp x;
           y = of_int (rhe (x / q)) * q
       in if huge \<le> y then PInf
          else if y \<le> - huge then MInf
          else Fin y)"

section \<open>Binary64 operations\<close>

text \<open>
  The comparisons \<^verbatim>\<open><\<close> and \<^verbatim>\<open><=\<close>: false when an operand is NaN.
\<close>

fun dless :: "f64 \<Rightarrow> f64 \<Rightarrow> bool" where
  "dless NaN b = False"
| "dless a NaN = False"
| "dless (Fin a) (Fin b) = (a < b)"
| "dless (Fin a) PInf = True"
| "dless (Fin a) MInf = False"
| "dless PInf b = False"
| "dless MInf MInf = False"
| "dless MInf b = True"

fun dle :: "f64 \<Rightarrow> f64 \<Rightarrow> bool" where
  "dle NaN b = False"
| "dle a NaN = False"
| "dle (Fin a) (Fin b) = (a \<le> b)"
| "dle (Fin a) PInf = True"
| "dle (Fin a) MInf = False"
| "dle MInf b = True"
| "dle PInf PInf = True"
| "dle PInf b = False"

text \<open>
  Negation, \<^verbatim>\<open>+\<close>, \<^verbatim>\<open>-\<close>, \<^verbatim>\<open>*\<close> and \<^verbatim>\<open>/\<close>: the exact result, rounded, with the special values
  of IEEE 754.
\<close>

fun dneg :: "f64 \<Rightarrow> f64" where
  "dneg (Fin a) = Fin (- a)"
| "dneg PInf = MInf"
| "dneg MInf = PInf"
| "dneg NaN = NaN"

fun dadd :: "f64 \<Rightarrow> f64 \<Rightarrow> f64" where
  "dadd NaN b = NaN"
| "dadd a NaN = NaN"
| "dadd (Fin a) (Fin b) = rnd (a + b)"
| "dadd PInf MInf = NaN"
| "dadd MInf PInf = NaN"
| "dadd PInf b = PInf"
| "dadd a PInf = PInf"
| "dadd MInf b = MInf"
| "dadd a MInf = MInf"

definition dsub :: "f64 \<Rightarrow> f64 \<Rightarrow> f64" where
  "dsub a b = dadd a (dneg b)"

fun dmul :: "f64 \<Rightarrow> f64 \<Rightarrow> f64" where
  "dmul NaN b = NaN"
| "dmul a NaN = NaN"
| "dmul (Fin a) (Fin b) = rnd (a * b)"
| "dmul (Fin a) PInf = (if a = 0 then NaN else if 0 < a then PInf else MInf)"
| "dmul (Fin a) MInf = (if a = 0 then NaN else if 0 < a then MInf else PInf)"
| "dmul PInf (Fin b) = (if b = 0 then NaN else if 0 < b then PInf else MInf)"
| "dmul MInf (Fin b) = (if b = 0 then NaN else if 0 < b then MInf else PInf)"
| "dmul PInf PInf = PInf"
| "dmul PInf MInf = MInf"
| "dmul MInf PInf = MInf"
| "dmul MInf MInf = PInf"

fun ddiv :: "f64 \<Rightarrow> f64 \<Rightarrow> f64" where
  "ddiv NaN b = NaN"
| "ddiv a NaN = NaN"
| "ddiv (Fin a) (Fin b) =
    (if b = 0 then (if a = 0 then NaN else if 0 < a then PInf else MInf)
     else rnd (a / b))"
| "ddiv (Fin a) b = Fin 0"
| "ddiv PInf (Fin b) = (if 0 \<le> b then PInf else MInf)"
| "ddiv MInf (Fin b) = (if 0 \<le> b then MInf else PInf)"
| "ddiv a b = NaN"

text \<open>
  \<^verbatim>\<open>fmin\<close> returns the other operand when one is NaN. \<^verbatim>\<open>fabs\<close> and \<^verbatim>\<open>floor\<close> are exact, and
  \<^verbatim>\<open>sqrt\<close> is correctly rounded, as IEEE 754 requires.
\<close>

fun dfmin :: "f64 \<Rightarrow> f64 \<Rightarrow> f64" where
  "dfmin NaN b = b"
| "dfmin a NaN = a"
| "dfmin a b = (if dless b a then b else a)"

fun dfabs :: "f64 \<Rightarrow> f64" where
  "dfabs (Fin a) = Fin \<bar>a\<bar>"
| "dfabs PInf = PInf"
| "dfabs MInf = PInf"
| "dfabs NaN = NaN"

fun dfloor :: "f64 \<Rightarrow> f64" where
  "dfloor (Fin a) = Fin (of_int \<lfloor>a\<rfloor>)"
| "dfloor a = a"

fun dsqrt :: "f64 \<Rightarrow> f64" where
  "dsqrt (Fin a) = (if a < 0 then NaN else rnd (sqrt a))"
| "dsqrt PInf = PInf"
| "dsqrt a = NaN"

text \<open>
  \<^verbatim>\<open>sin\<close>, \<^verbatim>\<open>cos\<close>, \<^verbatim>\<open>acos\<close> and \<^verbatim>\<open>atan2\<close> are taken to return the rounded value of the real
  function, \<open>atan2\<close> being the function of the first model. A C library need not be that
  accurate. The statements below use of these functions only what follows: their values at
  \<open>0\<close>, which are exact; that \<^verbatim>\<open>sin\<close> of the least subnormal number \<open>e\<close> and of \<open>- e\<close> are
  opposite and zero or of magnitude \<open>e\<close>, and that \<^verbatim>\<open>cos\<close> near zero is \<open>1\<close>; that \<^verbatim>\<open>atan2\<close>
  returns one finite value when called twice on the same finite arguments; and that
  \<^verbatim>\<open>acos\<close> returns a number between \<open>0\<close> and a little over \<open>pi\<close>. The poses that the sampler
  hands to a visitor are computed with \<^verbatim>\<open>sin\<close> and \<^verbatim>\<open>cos\<close>; the statements on sampling say
  at which parameters the visitor is called and name the pose as what \<^verbatim>\<open>dubins_path_sample\<close>
  computes there. \<^verbatim>\<open>M_PI\<close> is the binary64 number nearest to \<open>pi\<close>.
\<close>

fun dsin :: "f64 \<Rightarrow> f64" where
  "dsin (Fin a) = rnd (sin a)"
| "dsin a = NaN"

fun dcos :: "f64 \<Rightarrow> f64" where
  "dcos (Fin a) = rnd (cos a)"
| "dcos a = NaN"

fun dacos :: "f64 \<Rightarrow> f64" where
  "dacos (Fin a) = (if 1 < \<bar>a\<bar> then NaN else rnd (arccos a))"
| "dacos a = NaN"

fun datan2 :: "f64 \<Rightarrow> f64 \<Rightarrow> f64" where
  "datan2 NaN x = NaN"
| "datan2 y NaN = NaN"
| "datan2 (Fin y) (Fin x) = rnd (atan2 y x)"
| "datan2 (Fin y) PInf = Fin 0"
| "datan2 (Fin y) MInf = (if 0 \<le> y then rnd pi else rnd (- pi))"
| "datan2 PInf (Fin x) = rnd (pi / 2)"
| "datan2 MInf (Fin x) = rnd (- (pi / 2))"
| "datan2 PInf PInf = rnd (pi / 4)"
| "datan2 MInf PInf = rnd (- (pi / 4))"
| "datan2 PInf MInf = rnd (3 * pi / 4)"
| "datan2 MInf MInf = rnd (- (3 * pi / 4))"

definition M_PI :: f64 where
  "M_PI = Fin (884279719003555 / 2 ^ 48)"

section \<open>The program on binary64 numbers\<close>

text \<open>
  The functions of the program once more, operation by operation: \<^verbatim>\<open>a + b + c\<close> is
  \<open>dadd (dadd a b) c\<close>, and an integer literal is the binary64 number of its value. Return
  codes, segment types and the table \<open>DIRDATA\<close> are those of the first model.
\<close>

type_synonym f64x3 = "f64 \<times> f64 \<times> f64"

fun at3f :: "f64x3 \<Rightarrow> int \<Rightarrow> f64" where
  "at3f (a, b, c) i = (if i = 0 then a else if i = 1 then b else c)"

record DubinsPath_f64 =
  qi_f :: f64x3
  param_f :: f64x3
  rho_f :: f64
  type_f :: int

definition fmodr_f64 :: "f64 \<Rightarrow> f64 \<Rightarrow> f64" where
  "fmodr_f64 x y = dsub x (dmul y (dfloor (ddiv x y)))"

definition mod2pi_f64 :: "f64 \<Rightarrow> f64" where
  "mod2pi_f64 theta = fmodr_f64 theta (dmul (Fin 2) M_PI)"

type_synonym DubinsWord_f64 = "f64 \<Rightarrow> f64 \<Rightarrow> f64 \<Rightarrow> retcode + f64x3"

definition dubins_LSL_f64 :: DubinsWord_f64 where
  "dubins_LSL_f64 alpha beta d =
    (let sa = dsin alpha; sb = dsin beta; ca = dcos alpha; cb = dcos beta;
         c_ab = dcos (dsub alpha beta);
         tmp0 = dsub (dadd d sa) sb;
         p_squared = dadd (dsub (dadd (Fin 2) (dmul d d)) (dmul (Fin 2) c_ab))
                       (dmul (dmul (Fin 2) d) (dsub sa sb))
     in if dless p_squared (Fin 0) then Inl EDUBNOPATH
        else
          let tmp1 = datan2 (dsub cb ca) tmp0;
              t = mod2pi_f64 (dadd (dneg alpha) tmp1);
              p = dsqrt p_squared;
              q = mod2pi_f64 (dsub beta tmp1)
          in Inr (t, p, q))"

definition dubins_RSR_f64 :: DubinsWord_f64 where
  "dubins_RSR_f64 alpha beta d =
    (let sa = dsin alpha; sb = dsin beta; ca = dcos alpha; cb = dcos beta;
         c_ab = dcos (dsub alpha beta);
         tmp0 = dadd (dsub d sa) sb;
         p_squared = dadd (dsub (dadd (Fin 2) (dmul d d)) (dmul (Fin 2) c_ab))
                       (dmul (dmul (Fin 2) d) (dsub sb sa))
     in if dless p_squared (Fin 0) then Inl EDUBNOPATH
        else
          let tmp1 = datan2 (dsub ca cb) tmp0;
              t = mod2pi_f64 (dsub alpha tmp1);
              p = dsqrt p_squared;
              q = mod2pi_f64 (dadd (dneg beta) tmp1)
          in Inr (t, p, q))"

definition dubins_LSR_f64 :: DubinsWord_f64 where
  "dubins_LSR_f64 alpha beta d =
    (let sa = dsin alpha; sb = dsin beta; ca = dcos alpha; cb = dcos beta;
         c_ab = dcos (dsub alpha beta);
         p_squared = dadd (dadd (dadd (Fin (- 2)) (dmul d d)) (dmul (Fin 2) c_ab))
                       (dmul (dmul (Fin 2) d) (dadd sa sb))
     in if dless p_squared (Fin 0) then Inl EDUBNOPATH
        else
          let p = dsqrt p_squared;
              tmp2 = dsub (datan2 (dsub (dneg ca) cb) (dadd (dadd d sa) sb))
                          (datan2 (Fin (- 2)) p);
              t = mod2pi_f64 (dadd (dneg alpha) tmp2);
              q = mod2pi_f64 (dadd (dneg (mod2pi_f64 beta)) tmp2)
          in Inr (t, p, q))"

definition dubins_RSL_f64 :: DubinsWord_f64 where
  "dubins_RSL_f64 alpha beta d =
    (let sa = dsin alpha; sb = dsin beta; ca = dcos alpha; cb = dcos beta;
         c_ab = dcos (dsub alpha beta);
         p_squared = dsub (dadd (dsub (dmul d d) (Fin 2)) (dmul (Fin 2) c_ab))
                       (dmul (dmul (Fin 2) d) (dadd sa sb))
     in if dless p_squared (Fin 0) then Inl EDUBNOPATH
        else
          let p = dsqrt p_squared;
              tmp2 = dsub (datan2 (dadd ca cb) (dsub (dsub d sa) sb))
                          (datan2 (Fin 2) p);
              t = mod2pi_f64 (dsub alpha tmp2);
              q = mod2pi_f64 (dsub beta tmp2)
          in Inr (t, p, q))"

definition dubins_RLR_f64 :: DubinsWord_f64 where
  "dubins_RLR_f64 alpha beta d =
    (let sa = dsin alpha; sb = dsin beta; ca = dcos alpha; cb = dcos beta;
         c_ab = dcos (dsub alpha beta);
         tmp_rlr = ddiv (dadd (dadd (dsub (Fin 6) (dmul d d)) (dmul (Fin 2) c_ab))
                           (dmul (dmul (Fin 2) d) (dsub sa sb)))
                        (Fin 8)
     in if dless (Fin 1) (dfabs tmp_rlr) then Inl EDUBNOPATH
        else
          let p = mod2pi_f64 (dsub (dmul (Fin 2) M_PI) (dacos tmp_rlr));
              t = mod2pi_f64 (dadd (dsub alpha (datan2 (dsub ca cb) (dadd (dsub d sa) sb)))
                                   (mod2pi_f64 (ddiv p (Fin 2))));
              q = mod2pi_f64 (dadd (dsub (dsub alpha beta) t) (mod2pi_f64 p))
          in Inr (t, p, q))"

definition dubins_LRL_f64 :: DubinsWord_f64 where
  "dubins_LRL_f64 alpha beta d =
    (let sa = dsin alpha; sb = dsin beta; ca = dcos alpha; cb = dcos beta;
         c_ab = dcos (dsub alpha beta);
         tmp_lrl = ddiv (dadd (dadd (dsub (Fin 6) (dmul d d)) (dmul (Fin 2) c_ab))
                           (dmul (dmul (Fin 2) d) (dadd (dneg sa) sb)))
                        (Fin 8)
     in if dless (Fin 1) (dfabs tmp_lrl) then Inl EDUBNOPATH
        else
          let p = mod2pi_f64 (dsub (dmul (Fin 2) M_PI) (dacos tmp_lrl));
              t = mod2pi_f64 (dadd (dsub (dneg alpha) (datan2 (dsub ca cb) (dsub (dadd d sa) sb)))
                                   (ddiv p (Fin 2)));
              q = mod2pi_f64 (dadd (dsub (dsub (mod2pi_f64 beta) alpha) t) (mod2pi_f64 p))
          in Inr (t, p, q))"

definition dubins_words_f64 :: "DubinsWord_f64 list" where
  "dubins_words_f64 =
    [dubins_LSL_f64, dubins_LSR_f64, dubins_RSL_f64, dubins_RSR_f64, dubins_RLR_f64,
     dubins_LRL_f64]"

text \<open>
  \<^verbatim>\<open>dubins_init_normalised\<close>: \<open>word_cost_f64\<close> is the sum \<^verbatim>\<open>params[0] + params[1] + params[2]\<close>
  of the loop body, \<^verbatim>\<open>best_cost\<close> starts as \<^verbatim>\<open>INFINITY\<close>, and \<^verbatim>\<open>cost < best_cost\<close> is the binary64
  comparison, which an infinite or NaN cost does not pass.
\<close>

record init_state_f64 =
  best_cost_f :: f64
  best_word_f :: int
  out_path_f :: DubinsPath_f64

definition word_cost_f64 :: "f64x3 \<Rightarrow> f64" where
  "word_cost_f64 params = dadd (dadd (at3f params 0) (at3f params 1)) (at3f params 2)"

definition init_step_f64 ::
  "DubinsWord_f64 list \<Rightarrow> f64 \<Rightarrow> f64 \<Rightarrow> f64 \<Rightarrow> nat \<Rightarrow> init_state_f64 \<Rightarrow> init_state_f64" where
  "init_step_f64 ws alpha beta d i s =
    (case (ws ! i) alpha beta d of
       Inl err \<Rightarrow> s
     | Inr params \<Rightarrow>
         (let cost = word_cost_f64 params
          in if dless cost (best_cost_f s)
             then s\<lparr>best_word_f := int i,
                    best_cost_f := cost,
                    out_path_f := (out_path_f s)\<lparr>param_f := params, type_f := int i\<rparr>\<rparr>
             else s))"

fun init_loop_f64 ::
  "DubinsWord_f64 list \<Rightarrow> f64 \<Rightarrow> f64 \<Rightarrow> f64 \<Rightarrow> nat list \<Rightarrow> init_state_f64 \<Rightarrow> init_state_f64" where
  "init_loop_f64 ws alpha beta d [] s = s"
| "init_loop_f64 ws alpha beta d (i # is) s =
     init_loop_f64 ws alpha beta d is (init_step_f64 ws alpha beta d i s)"

definition dubins_init_normalised_f64_with ::
  "DubinsWord_f64 list \<Rightarrow> f64 \<Rightarrow> f64 \<Rightarrow> f64 \<Rightarrow> DubinsPath_f64 \<Rightarrow> retcode \<times> DubinsPath_f64" where
  "dubins_init_normalised_f64_with ws alpha beta d path =
    (let s = init_loop_f64 ws alpha beta d [0..<6]
               \<lparr>best_cost_f = PInf, best_word_f = - 1, out_path_f = path\<rparr>
     in if best_word_f s = - 1 then (EDUBNOPATH, out_path_f s)
        else (EDUBOK, (out_path_f s)\<lparr>type_f := best_word_f s\<rparr>))"

definition dubins_init_normalised_f64 ::
  "f64 \<Rightarrow> f64 \<Rightarrow> f64 \<Rightarrow> DubinsPath_f64 \<Rightarrow> retcode \<times> DubinsPath_f64" where
  "dubins_init_normalised_f64 = dubins_init_normalised_f64_with dubins_words_f64"



definition dubins_path_length_f64 :: "DubinsPath_f64 \<Rightarrow> f64" where
  "dubins_path_length_f64 path =
    (let length0 = Fin 0;
         length1 = dadd length0 (at3f (param_f path) 0);
         length2 = dadd length1 (at3f (param_f path) 1);
         length3 = dadd length2 (at3f (param_f path) 2)
     in dmul length3 (rho_f path))"





text \<open>
  \<^verbatim>\<open>dubins_extract_subpath\<close> writes every field of \<^verbatim>\<open>newpath\<close> and returns \<^verbatim>\<open>0\<close>.
\<close>

definition dubins_extract_subpath_f64 ::
  "DubinsPath_f64 \<Rightarrow> f64 \<Rightarrow> DubinsPath_f64 \<Rightarrow> retcode \<times> DubinsPath_f64" where
  "dubins_extract_subpath_f64 path t newpath =
    (let tprime = ddiv t (rho_f path);
         n1 = newpath\<lparr>qi_f := (at3f (qi_f path) 0, at3f (qi_f path) 1, at3f (qi_f path) 2)\<rparr>;
         n2 = n1\<lparr>rho_f := rho_f path\<rparr>;
         n3 = n2\<lparr>type_f := type_f path\<rparr>;
         np0 = dfmin (at3f (param_f path) 0) tprime;
         np1 = dfmin (at3f (param_f path) 1) (dsub tprime np0);
         np2 = dfmin (at3f (param_f path) 2) (dsub (dsub tprime np0) np1)
     in (EDUBOK, n3\<lparr>param_f := (np0, np1, np2)\<rparr>))"

section \<open>Notions used in the binary64 statements\<close>

text \<open>
  A valid path: a positive radius, three parameters that are not negative (hence not NaN),
  and one of the six words. \<open>nan_or_nonneg\<close> holds of the intermediate values of the
  clamping in \<^verbatim>\<open>dubins_extract_subpath\<close>.
\<close>

definition valid_path_f64 :: "DubinsPath_f64 \<Rightarrow> bool" where
  "valid_path_f64 path \<longleftrightarrow>
     dless (Fin 0) (rho_f path)
     \<and> dle (Fin 0) (at3f (param_f path) 0) \<and> dle (Fin 0) (at3f (param_f path) 1)
     \<and> dle (Fin 0) (at3f (param_f path) 2)
     \<and> 0 \<le> type_f path \<and> type_f path \<le> 5"

definition nan_or_nonneg :: "f64 \<Rightarrow> bool" where
  "nan_or_nonneg a \<longleftrightarrow> a = NaN \<or> dle (Fin 0) a"

text \<open>
  The words among which \<^verbatim>\<open>dubins_init_normalised\<close> chooses: entry \<open>j\<close> of the table is
  eligible with output \<open>ps\<close> when it succeeds with \<open>ps\<close> and the cost of \<open>ps\<close> compares below
  \<^verbatim>\<open>INFINITY\<close>. \<open>first_minimum_f64\<close>: among the first \<open>n\<close> entries, \<open>k\<close> is eligible with \<open>ps\<close>,
  no eligible entry is cheaper, and every eligible entry before \<open>k\<close> is strictly dearer.
  \<open>loop_inv_f64\<close> is the invariant of the selection loop after \<open>n\<close> rounds.
\<close>

definition eligible_f64 ::
  "DubinsWord_f64 list \<Rightarrow> f64 \<Rightarrow> f64 \<Rightarrow> f64 \<Rightarrow> nat \<Rightarrow> f64x3 \<Rightarrow> bool" where
  "eligible_f64 ws alpha beta d j ps \<longleftrightarrow>
     (ws ! j) alpha beta d = Inr ps \<and> dless (word_cost_f64 ps) PInf"

definition first_minimum_f64 ::
  "DubinsWord_f64 list \<Rightarrow> f64 \<Rightarrow> f64 \<Rightarrow> f64 \<Rightarrow> nat \<Rightarrow> nat \<Rightarrow> f64x3 \<Rightarrow> bool" where
  "first_minimum_f64 ws alpha beta d n k ps \<longleftrightarrow>
     k < n \<and> eligible_f64 ws alpha beta d k ps
     \<and> (\<forall>j<n. \<forall>ps'. eligible_f64 ws alpha beta d j ps' \<longrightarrow>
           dle (word_cost_f64 ps) (word_cost_f64 ps'))
     \<and> (\<forall>j<k. \<forall>ps'. eligible_f64 ws alpha beta d j ps' \<longrightarrow>
           dless (word_cost_f64 ps) (word_cost_f64 ps'))"

definition loop_inv_f64 ::
  "DubinsWord_f64 list \<Rightarrow> f64 \<Rightarrow> f64 \<Rightarrow> f64 \<Rightarrow> DubinsPath_f64 \<Rightarrow> nat \<Rightarrow> init_state_f64 \<Rightarrow> bool" where
  "loop_inv_f64 ws alpha beta d path n s \<longleftrightarrow>
     ((\<forall>j<n. \<forall>ps. \<not> eligible_f64 ws alpha beta d j ps)
        \<and> s = \<lparr>best_cost_f = PInf, best_word_f = - 1, out_path_f = path\<rparr>)
     \<or> (\<exists>k ps. first_minimum_f64 ws alpha beta d n k ps
        \<and> s = \<lparr>best_cost_f = word_cost_f64 ps, best_word_f = int k,
                out_path_f = path\<lparr>param_f := ps, type_f := int k\<rparr>\<rparr>)"






section \<open>Basic facts\<close>

lemma at3_proj: "at3 q 0 = fst q" "at3 q 1 = fst (snd q)" "at3 q 2 = snd (snd q)"
  by (cases q; simp)+

lemma path_length_eq:
  "dubins_path_length path
     = rho path * (at3 (param path) 0 + at3 (param path) 1 + at3 (param path) 2)"
  by (simp add: dubins_path_length_def Let_def mult.commute)

section \<open>The ring modulus\<close>










section \<open>Facts about the solvers\<close>








text \<open>
  The discriminant of \<^verbatim>\<open>dubins_LSL\<close> is a sum of two squares, so in exact arithmetic this
  solver never fails.
\<close>

lemma csc_square_sum:
  fixes d sa sb ca cb :: real
  shows "(d + sa - sb)\<^sup>2 + (cb - ca)\<^sup>2
      = d * d + 2 * d * (sa - sb) + (sa\<^sup>2 + ca\<^sup>2) + (sb\<^sup>2 + cb\<^sup>2) - 2 * (ca * cb + sa * sb)"
  by (simp add: power2_eq_square algebra_simps)

lemma dubins_LSL_feasible: "\<exists>ps. dubins_LSL alpha beta d = Inr ps"
proof -
  have "(d + sin alpha - sin beta)\<^sup>2 + (cos beta - cos alpha)\<^sup>2
      = 2 + d * d - 2 * cos (alpha - beta) + 2 * d * (sin alpha - sin beta)"
    unfolding csc_square_sum by (simp add: cos_diff)
  moreover have "0 \<le> (d + sin alpha - sin beta)\<^sup>2 + (cos beta - cos alpha)\<^sup>2"
    by simp
  ultimately have "0 \<le> 2 + d * d - 2 * cos (alpha - beta) + 2 * d * (sin alpha - sin beta)"
    by simp
  then show ?thesis
    by (simp add: dubins_LSL_def Let_def)
qed

text \<open>The solvers at \<open>alpha = beta = 0\<close>, for the distances 4 and 0.\<close>

lemma sqrt_16: "sqrt 16 = 4"
  using real_sqrt_abs [of 4] by simp















section \<open>The selection loop\<close>

lemma init_loop_append:
  "init_loop ws alpha beta d (xs @ ys) s
     = init_loop ws alpha beta d ys (init_loop ws alpha beta d xs s)"
  by (induction xs arbitrary: s) simp_all

lemma first_minimum_keep:
  assumes "first_minimum ws alpha beta d n k ps"
    and "\<And>ps'. (ws ! n) alpha beta d = Inr ps' \<Longrightarrow> word_cost ps \<le> word_cost ps'"
  shows "first_minimum ws alpha beta d (Suc n) k ps"
  using assms unfolding first_minimum_def by (auto simp: less_Suc_eq)

lemma first_minimum_new:
  assumes "(ws ! n) alpha beta d = Inr ps"
    and "\<And>j ps'. j < n \<Longrightarrow> (ws ! j) alpha beta d = Inr ps' \<Longrightarrow> word_cost ps < word_cost ps'"
  shows "first_minimum ws alpha beta d (Suc n) n ps"
proof -
  have "word_cost ps \<le> word_cost ps'" if "j < Suc n" "(ws ! j) alpha beta d = Inr ps'" for j ps'
  proof (cases "j = n")
    case True
    with that assms(1) show ?thesis by simp
  next
    case False
    with that have "j < n" by simp
    with that assms(2) show ?thesis by (simp add: less_imp_le)
  qed
  with assms show ?thesis
    unfolding first_minimum_def by blast
qed

lemma loop_inv_step:
  assumes "loop_inv ws alpha beta d path n s"
  shows "loop_inv ws alpha beta d path (Suc n) (init_step ws alpha beta d n s)"
proof (cases "(ws ! n) alpha beta d")
  case (Inl e)
  then have same: "init_step ws alpha beta d n s = s"
    by (simp add: init_step_def)
  from assms show ?thesis
    unfolding loop_inv_def
  proof
    assume "(\<forall>j<n. \<exists>e. (ws ! j) alpha beta d = Inl e)
        \<and> s = \<lparr>best_cost = INFINITY, best_word = - 1, out_path = path\<rparr>"
    with Inl have "(\<forall>j<Suc n. \<exists>e. (ws ! j) alpha beta d = Inl e)
        \<and> s = \<lparr>best_cost = INFINITY, best_word = - 1, out_path = path\<rparr>"
      by (auto simp: less_Suc_eq)
    then show "((\<forall>j<Suc n. \<exists>e. (ws ! j) alpha beta d = Inl e)
        \<and> init_step ws alpha beta d n s = \<lparr>best_cost = INFINITY, best_word = - 1, out_path = path\<rparr>)
     \<or> (\<exists>k ps. first_minimum ws alpha beta d (Suc n) k ps
        \<and> init_step ws alpha beta d n s = \<lparr>best_cost = Finite (word_cost ps), best_word = int k,
                out_path = path\<lparr>param := ps, type := int k\<rparr>\<rparr>)"
      unfolding same by blast
  next
    assume "\<exists>k ps. first_minimum ws alpha beta d n k ps
        \<and> s = \<lparr>best_cost = Finite (word_cost ps), best_word = int k,
                out_path = path\<lparr>param := ps, type := int k\<rparr>\<rparr>"
    then obtain k ps where fm: "first_minimum ws alpha beta d n k ps"
      and s: "s = \<lparr>best_cost = Finite (word_cost ps), best_word = int k,
                out_path = path\<lparr>param := ps, type := int k\<rparr>\<rparr>"
      by blast
    from fm Inl have "first_minimum ws alpha beta d (Suc n) k ps"
      by (intro first_minimum_keep) simp_all
    with s show "((\<forall>j<Suc n. \<exists>e. (ws ! j) alpha beta d = Inl e)
        \<and> init_step ws alpha beta d n s = \<lparr>best_cost = INFINITY, best_word = - 1, out_path = path\<rparr>)
     \<or> (\<exists>k ps. first_minimum ws alpha beta d (Suc n) k ps
        \<and> init_step ws alpha beta d n s = \<lparr>best_cost = Finite (word_cost ps), best_word = int k,
                out_path = path\<lparr>param := ps, type := int k\<rparr>\<rparr>)"
      unfolding same by blast
  qed
next
  case (Inr psn)
  from assms show ?thesis
    unfolding loop_inv_def
  proof
    assume a: "(\<forall>j<n. \<exists>e. (ws ! j) alpha beta d = Inl e)
        \<and> s = \<lparr>best_cost = INFINITY, best_word = - 1, out_path = path\<rparr>"
    with Inr have new: "init_step ws alpha beta d n s
        = \<lparr>best_cost = Finite (word_cost psn), best_word = int n,
            out_path = path\<lparr>param := psn, type := int n\<rparr>\<rparr>"
      by (simp add: init_step_def word_cost_def Let_def)
    from a Inr have "first_minimum ws alpha beta d (Suc n) n psn"
      by (intro first_minimum_new) auto
    with new show "((\<forall>j<Suc n. \<exists>e. (ws ! j) alpha beta d = Inl e)
        \<and> init_step ws alpha beta d n s = \<lparr>best_cost = INFINITY, best_word = - 1, out_path = path\<rparr>)
     \<or> (\<exists>k ps. first_minimum ws alpha beta d (Suc n) k ps
        \<and> init_step ws alpha beta d n s = \<lparr>best_cost = Finite (word_cost ps), best_word = int k,
                out_path = path\<lparr>param := ps, type := int k\<rparr>\<rparr>)"
      by blast
  next
    assume "\<exists>k ps. first_minimum ws alpha beta d n k ps
        \<and> s = \<lparr>best_cost = Finite (word_cost ps), best_word = int k,
                out_path = path\<lparr>param := ps, type := int k\<rparr>\<rparr>"
    then obtain k ps where fm: "first_minimum ws alpha beta d n k ps"
      and s: "s = \<lparr>best_cost = Finite (word_cost ps), best_word = int k,
                out_path = path\<lparr>param := ps, type := int k\<rparr>\<rparr>"
      by blast
    show "((\<forall>j<Suc n. \<exists>e. (ws ! j) alpha beta d = Inl e)
        \<and> init_step ws alpha beta d n s = \<lparr>best_cost = INFINITY, best_word = - 1, out_path = path\<rparr>)
     \<or> (\<exists>k ps. first_minimum ws alpha beta d (Suc n) k ps
        \<and> init_step ws alpha beta d n s = \<lparr>best_cost = Finite (word_cost ps), best_word = int k,
                out_path = path\<lparr>param := ps, type := int k\<rparr>\<rparr>)"
    proof (cases "word_cost psn < word_cost ps")
      case True
      with Inr s have new: "init_step ws alpha beta d n s
          = \<lparr>best_cost = Finite (word_cost psn), best_word = int n,
              out_path = path\<lparr>param := psn, type := int n\<rparr>\<rparr>"
        by (simp add: init_step_def word_cost_def Let_def)
      have "first_minimum ws alpha beta d (Suc n) n psn"
      proof (rule first_minimum_new [OF Inr])
        fix j ps'
        assume "j < n" "(ws ! j) alpha beta d = Inr ps'"
        with fm have "word_cost ps \<le> word_cost ps'"
          unfolding first_minimum_def by blast
        with True show "word_cost psn < word_cost ps'" by simp
      qed
      with new show ?thesis by blast
    next
      case False
      with Inr s have same: "init_step ws alpha beta d n s = s"
        by (simp add: init_step_def word_cost_def Let_def)
      from fm Inr False have "first_minimum ws alpha beta d (Suc n) k ps"
        by (intro first_minimum_keep) auto
      with s show ?thesis unfolding same by blast
    qed
  qed
qed

lemma loop_inv_upto:
  "loop_inv ws alpha beta d path n
     (init_loop ws alpha beta d [0..<n] \<lparr>best_cost = INFINITY, best_word = - 1, out_path = path\<rparr>)"
proof (induction n)
  case 0
  show ?case by (simp add: loop_inv_def)
next
  case (Suc n)
  then show ?case
    by (simp add: init_loop_append loop_inv_step)
qed

lemma init_normalised_with_cases:
  "((\<forall>j<6. \<exists>e. (ws ! j) alpha beta d = Inl e)
      \<and> dubins_init_normalised_with ws alpha beta d path = (EDUBNOPATH, path))
   \<or> (\<exists>k ps. first_minimum ws alpha beta d 6 k ps
      \<and> dubins_init_normalised_with ws alpha beta d path = (EDUBOK, path\<lparr>param := ps, type := int k\<rparr>))"
proof -
  define s where "s = init_loop ws alpha beta d [0..<6]
    \<lparr>best_cost = INFINITY, best_word = - 1, out_path = path\<rparr>"
  have r: "dubins_init_normalised_with ws alpha beta d path
      = (if best_word s = - 1 then (EDUBNOPATH, out_path s)
         else (EDUBOK, (out_path s)\<lparr>type := best_word s\<rparr>))"
    by (simp add: dubins_init_normalised_with_def s_def Let_def)
  have "loop_inv ws alpha beta d path 6 s"
    unfolding s_def by (rule loop_inv_upto)
  then show ?thesis
    unfolding loop_inv_def
  proof
    assume "(\<forall>j<6. \<exists>e. (ws ! j) alpha beta d = Inl e)
        \<and> s = \<lparr>best_cost = INFINITY, best_word = - 1, out_path = path\<rparr>"
    then show ?thesis by (simp add: r)
  next
    assume "\<exists>k ps. first_minimum ws alpha beta d 6 k ps
        \<and> s = \<lparr>best_cost = Finite (word_cost ps), best_word = int k,
                out_path = path\<lparr>param := ps, type := int k\<rparr>\<rparr>"
    then obtain k ps where fm: "first_minimum ws alpha beta d 6 k ps"
      and s: "s = \<lparr>best_cost = Finite (word_cost ps), best_word = int k,
                out_path = path\<lparr>param := ps, type := int k\<rparr>\<rparr>"
      by blast
    have "dubins_init_normalised_with ws alpha beta d path = (EDUBOK, path\<lparr>param := ps, type := int k\<rparr>)"
      by (simp add: r s)
    with fm show ?thesis by blast
  qed
qed

lemma upt6: "[0..<6] = [0, 1, 2, 3, 4, 5]"
  by (simp add: upt_rec)



lemma init_with_all_fail:
  "dubins_init_normalised_with (replicate 6 (\<lambda>alpha beta d. Inl EDUBNOPATH)) alpha beta d path
     = (EDUBNOPATH, path)"
  by (simp add: dubins_init_normalised_with_def upt6 init_step_def Let_def)

section \<open>The synthesizer\<close>

lemma init_with_good_rho:
  assumes "0 < rho'"
  shows "dubins_init_with ws q0 q1 rho' path
    = dubins_init_normalised_with ws
        (mod2pi (at3 q0 2 - mod2pi (atan2 (at3 q1 1 - at3 q0 1) (at3 q1 0 - at3 q0 0))))
        (mod2pi (at3 q1 2 - mod2pi (atan2 (at3 q1 1 - at3 q0 1) (at3 q1 0 - at3 q0 0))))
        (sqrt ((at3 q1 0 - at3 q0 0) * (at3 q1 0 - at3 q0 0)
           + (at3 q1 1 - at3 q0 1) * (at3 q1 1 - at3 q0 1)) / rho')
        (path\<lparr>qi := q0, rho := rho'\<rparr>)"
  using assms by (cases q0) (simp add: dubins_init_with_def Let_def)





lemma init_with_nopath:
  assumes "0 < rho'" and "dubins_init_with ws q0 q1 rho' path = (EDUBNOPATH, path')"
  shows "path' = path\<lparr>qi := q0, rho := rho'\<rparr>"
proof -
  define alpha where "alpha = mod2pi (at3 q0 2 - mod2pi (atan2 (at3 q1 1 - at3 q0 1) (at3 q1 0 - at3 q0 0)))"
  define beta where "beta = mod2pi (at3 q1 2 - mod2pi (atan2 (at3 q1 1 - at3 q0 1) (at3 q1 0 - at3 q0 0)))"
  define d where "d = sqrt ((at3 q1 0 - at3 q0 0) * (at3 q1 0 - at3 q0 0)
           + (at3 q1 1 - at3 q0 1) * (at3 q1 1 - at3 q0 1)) / rho'"
  from assms have r: "dubins_init_normalised_with ws alpha beta d (path\<lparr>qi := q0, rho := rho'\<rparr>)
      = (EDUBNOPATH, path')"
    by (simp add: init_with_good_rho alpha_def beta_def d_def)
  from init_normalised_with_cases [of ws alpha beta d "path\<lparr>qi := q0, rho := rho'\<rparr>"] r
  show ?thesis by auto
qed

lemma init_with_pose_radius:
  assumes "0 < rho'"
  shows "qi (snd (dubins_init_with ws q0 q1 rho' path)) = q0
     \<and> rho (snd (dubins_init_with ws q0 q1 rho' path)) = rho'"
proof -
  define alpha where "alpha = mod2pi (at3 q0 2 - mod2pi (atan2 (at3 q1 1 - at3 q0 1) (at3 q1 0 - at3 q0 0)))"
  define beta where "beta = mod2pi (at3 q1 2 - mod2pi (atan2 (at3 q1 1 - at3 q0 1) (at3 q1 0 - at3 q0 0)))"
  define d where "d = sqrt ((at3 q1 0 - at3 q0 0) * (at3 q1 0 - at3 q0 0)
           + (at3 q1 1 - at3 q0 1) * (at3 q1 1 - at3 q0 1)) / rho'"
  from assms have r: "dubins_init_with ws q0 q1 rho' path
      = dubins_init_normalised_with ws alpha beta d (path\<lparr>qi := q0, rho := rho'\<rparr>)"
    by (simp add: init_with_good_rho alpha_def beta_def d_def)
  from init_normalised_with_cases [of ws alpha beta d "path\<lparr>qi := q0, rho := rho'\<rparr>"]
  show ?thesis unfolding r by auto
qed

lemma dubins_init_never_nopath:
  "fst (dubins_init q0 q1 rho' path) = (if rho' \<le> 0 then EDUBBADRHO else EDUBOK)"
proof (cases "rho' \<le> 0")
  case True
  then show ?thesis by (simp add: dubins_init_def dubins_init_with_def Let_def)
next
  case False
  then have pos: "0 < rho'" by simp
  define alpha where "alpha = mod2pi (at3 q0 2 - mod2pi (atan2 (at3 q1 1 - at3 q0 1) (at3 q1 0 - at3 q0 0)))"
  define beta where "beta = mod2pi (at3 q1 2 - mod2pi (atan2 (at3 q1 1 - at3 q0 1) (at3 q1 0 - at3 q0 0)))"
  define d where "d = sqrt ((at3 q1 0 - at3 q0 0) * (at3 q1 0 - at3 q0 0)
           + (at3 q1 1 - at3 q0 1) * (at3 q1 1 - at3 q0 1)) / rho'"
  from pos have r: "dubins_init q0 q1 rho' path
      = dubins_init_normalised_with dubins_words alpha beta d (path\<lparr>qi := q0, rho := rho'\<rparr>)"
    by (simp add: dubins_init_def init_with_good_rho alpha_def beta_def d_def)
  from dubins_LSL_feasible [of alpha beta d]
  have "\<not> (\<forall>j<6. \<exists>e. (dubins_words ! j) alpha beta d = Inl e)"
    by (auto simp: dubins_words_def intro!: exI [of _ 0])
  with init_normalised_with_cases [of dubins_words alpha beta d "path\<lparr>qi := q0, rho := rho'\<rparr>"]
  have "fst (dubins_init_normalised_with dubins_words alpha beta d (path\<lparr>qi := q0, rho := rho'\<rparr>)) = EDUBOK"
    by auto
  with False show ?thesis by (simp add: r)
qed

section \<open>Invalid radius\<close>

text \<open>
  Claim C4. For every pair of poses and every radius \<open>rho \<le> 0\<close>, zero included,
  \<^verbatim>\<open>dubins_init\<close> returns \<^verbatim>\<open>EDUBBADRHO\<close> and hands the output path back exactly as it got it:
  nothing computed from the quotient \<open>D / rho\<close>, which is taken before the check, reaches
  the caller.
\<close>

theorem dubins_init_bad_rho:
  "rho' \<le> 0 \<Longrightarrow> dubins_init q0 q1 rho' path = (EDUBBADRHO, path)"
  by (simp add: dubins_init_def dubins_init_with_def Let_def)

theorem dubins_init_bad_rho_witness:
  "(0::real) \<le> 0 \<and> (- 2::real) \<le> 0
   \<and> dubins_init (0, 0, 0) (3, 4, 1) 0 \<lparr>qi = (9, 9, 9), param = (9, 9, 9), rho = 9, type = 9\<rparr>
       = (EDUBBADRHO, \<lparr>qi = (9, 9, 9), param = (9, 9, 9), rho = 9, type = 9\<rparr>)
   \<and> dubins_init (0, 0, 0) (0, 0, 0) (- 2) \<lparr>qi = (9, 9, 9), param = (9, 9, 9), rho = 9, type = 9\<rparr>
       = (EDUBBADRHO, \<lparr>qi = (9, 9, 9), param = (9, 9, 9), rho = 9, type = 9\<rparr>)"
  using
    dubins_init_bad_rho [of 0 "(0, 0, 0)" "(3, 4, 1)"
      "\<lparr>qi = (9, 9, 9), param = (9, 9, 9), rho = 9, type = 9\<rparr>"]
    dubins_init_bad_rho [of "- 2" "(0, 0, 0)" "(0, 0, 0)"
      "\<lparr>qi = (9, 9, 9), param = (9, 9, 9), rho = 9, type = 9\<rparr>"]
  by simp

section \<open>What a failing call writes\<close>

text \<open>
  Claim C10. \<^verbatim>\<open>dubins_init\<close> with \<open>rho \<le> 0\<close> returns \<^verbatim>\<open>EDUBBADRHO\<close> and leaves the output path
  untouched. With \<open>rho > 0\<close> it writes \<^verbatim>\<open>qi\<close> and \<^verbatim>\<open>rho\<close> before the solvers run: both hold the
  new values whatever the outcome, and when the call returns \<^verbatim>\<open>EDUBNOPATH\<close> the path is the
  caller's path with just these two fields overwritten, \<^verbatim>\<open>param\<close> and \<^verbatim>\<open>type\<close> being as they
  were. The last part is stated for every content \<open>ws\<close> of the solver table, the table
  \<^verbatim>\<open>dubins_words\<close> of \<^verbatim>\<open>dubins_init\<close> included.
\<close>

theorem dubins_init_frame:
  "(rho' \<le> 0 \<longrightarrow> dubins_init q0 q1 rho' path = (EDUBBADRHO, path))
   \<and> (0 < rho' \<longrightarrow>
        qi (snd (dubins_init q0 q1 rho' path)) = q0
        \<and> rho (snd (dubins_init q0 q1 rho' path)) = rho'
        \<and> (\<forall>ws path'. dubins_init_with ws q0 q1 rho' path = (EDUBNOPATH, path') \<longrightarrow>
              path' = path\<lparr>qi := q0, rho := rho'\<rparr>))"
proof -
  have bad: "dubins_init q0 q1 rho' path = (EDUBBADRHO, path)" if "rho' \<le> 0"
    using that by (simp add: dubins_init_def dubins_init_with_def Let_def)
  have good: "qi (snd (dubins_init q0 q1 rho' path)) = q0
        \<and> rho (snd (dubins_init q0 q1 rho' path)) = rho'
        \<and> (\<forall>ws path'. dubins_init_with ws q0 q1 rho' path = (EDUBNOPATH, path') \<longrightarrow>
              path' = path\<lparr>qi := q0, rho := rho'\<rparr>)" if "0 < rho'"
    using that init_with_pose_radius [OF that, of dubins_words q0 q1 path]
      init_with_nopath [OF that]
    unfolding dubins_init_def by blast
  from bad good show ?thesis by blast
qed

theorem dubins_init_frame_witness:
  "(- 1 :: real) \<le> 0
   \<and> dubins_init (1, 2, 3) (4, 5, 6) (- 1) \<lparr>qi = (9, 9, 9), param = (9, 9, 9), rho = 9, type = 9\<rparr>
       = (EDUBBADRHO, \<lparr>qi = (9, 9, 9), param = (9, 9, 9), rho = 9, type = 9\<rparr>)
   \<and> (0 :: real) < 2
   \<and> qi (snd (dubins_init (1, 2, 3) (4, 5, 6) 2
        \<lparr>qi = (9, 9, 9), param = (9, 9, 9), rho = 9, type = 9\<rparr>)) = (1, 2, 3)
   \<and> rho (snd (dubins_init (1, 2, 3) (4, 5, 6) 2
        \<lparr>qi = (9, 9, 9), param = (9, 9, 9), rho = 9, type = 9\<rparr>)) = 2
   \<and> dubins_init_with (replicate 6 (\<lambda>alpha beta d. Inl EDUBNOPATH)) (1, 2, 3) (4, 5, 6) 2
        \<lparr>qi = (9, 9, 9), param = (9, 9, 9), rho = 9, type = 9\<rparr>
       = (EDUBNOPATH, \<lparr>qi = (1, 2, 3), param = (9, 9, 9), rho = 2, type = 9\<rparr>)"
proof -
  have h: "dubins_init_with (replicate 6 (\<lambda>alpha beta d. Inl EDUBNOPATH)) (1, 2, 3) (4, 5, 6) 2
        \<lparr>qi = (9, 9, 9), param = (9, 9, 9), rho = 9, type = 9\<rparr>
       = (EDUBNOPATH, \<lparr>qi = (1, 2, 3), param = (9, 9, 9), rho = 2, type = 9\<rparr>)"
    by (simp add: dubins_init_with_def Let_def init_with_all_fail)
  have neg: "(- 1 :: real) \<le> 0" and pos: "(0 :: real) < 2"
    by simp_all
  from neg dubins_init_frame [of "- 1" "(1, 2, 3)" "(4, 5, 6)"
      "\<lparr>qi = (9, 9, 9), param = (9, 9, 9), rho = 9, type = 9\<rparr>"]
  have a: "dubins_init (1, 2, 3) (4, 5, 6) (- 1) \<lparr>qi = (9, 9, 9), param = (9, 9, 9), rho = 9, type = 9\<rparr>
       = (EDUBBADRHO, \<lparr>qi = (9, 9, 9), param = (9, 9, 9), rho = 9, type = 9\<rparr>)"
    by blast
  from pos dubins_init_frame [of 2 "(1, 2, 3)" "(4, 5, 6)"
      "\<lparr>qi = (9, 9, 9), param = (9, 9, 9), rho = 9, type = 9\<rparr>"]
  have b: "qi (snd (dubins_init (1, 2, 3) (4, 5, 6) 2
        \<lparr>qi = (9, 9, 9), param = (9, 9, 9), rho = 9, type = 9\<rparr>)) = (1, 2, 3)
     \<and> rho (snd (dubins_init (1, 2, 3) (4, 5, 6) 2
        \<lparr>qi = (9, 9, 9), param = (9, 9, 9), rho = 9, type = 9\<rparr>)) = 2"
    by blast
  from neg pos a b h show ?thesis by blast
qed

section \<open>Segment lengths\<close>

text \<open>
  Claim C9. For every path and every integer \<open>i\<close>, \<^verbatim>\<open>dubins_segment_length\<close> and
  \<^verbatim>\<open>dubins_segment_length_normalized\<close> return the sentinel \<^verbatim>\<open>INFINITY\<close>, a value and not an
  error, when \<open>i < 0\<close> or \<open>i > 2\<close>; at the indices 0, 1 and 2 they return the parameter at
  that index, times \<open>rho\<close> for the first function and as it is for the second.
\<close>

theorem segment_length_sentinel:
  "(i < 0 \<or> 2 < i \<longrightarrow>
      dubins_segment_length path i = INFINITY
      \<and> dubins_segment_length_normalized path i = INFINITY)
   \<and> (param path = (p0, p1, p2) \<longrightarrow>
      dubins_segment_length path 0 = Finite (p0 * rho path)
      \<and> dubins_segment_length path 1 = Finite (p1 * rho path)
      \<and> dubins_segment_length path 2 = Finite (p2 * rho path)
      \<and> dubins_segment_length_normalized path 0 = Finite p0
      \<and> dubins_segment_length_normalized path 1 = Finite p1
      \<and> dubins_segment_length_normalized path 2 = Finite p2)"
  by (simp add: dubins_segment_length_def dubins_segment_length_normalized_def)

theorem segment_length_sentinel_witness:
  "dubins_segment_length \<lparr>qi = (0, 0, 0), param = (1, 2, 3), rho = 5, type = 0\<rparr> 3 = INFINITY
   \<and> dubins_segment_length_normalized
        \<lparr>qi = (0, 0, 0), param = (1, 2, 3), rho = 5, type = 0\<rparr> (- 1) = INFINITY
   \<and> dubins_segment_length \<lparr>qi = (0, 0, 0), param = (1, 2, 3), rho = 5, type = 0\<rparr> 1 = Finite 10
   \<and> dubins_segment_length_normalized
        \<lparr>qi = (0, 0, 0), param = (1, 2, 3), rho = 5, type = 0\<rparr> 2 = Finite 3"
  using
    segment_length_sentinel [of 3 "\<lparr>qi = (0, 0, 0), param = (1, 2, 3), rho = 5, type = 0\<rparr>" 1 2 3]
    segment_length_sentinel [of "- 1" "\<lparr>qi = (0, 0, 0), param = (1, 2, 3), rho = 5, type = 0\<rparr>" 1 2 3]
  by simp

section \<open>Sampling range\<close>

text \<open>
  Claim C5. For every path and every real \<open>t\<close>, \<^verbatim>\<open>dubins_path_sample\<close> returns \<^verbatim>\<open>EDUBPARAM\<close>
  if and only if \<open>t < 0\<close> or \<open>t\<close> is at least the total length, which is
  \<open>rho * (param0 + param1 + param2)\<close>; for a valid path and \<open>t\<close> in \<open>[0, length)\<close> it returns
  success and overwrites the caller's buffer: the pose it hands back does not depend on what
  the buffer held.
\<close>

theorem path_sample_range:
  "(fst (dubins_path_sample path t q) = EDUBPARAM \<longleftrightarrow> t < 0 \<or> dubins_path_length path \<le> t)
   \<and> dubins_path_length path
       = rho path * (at3 (param path) 0 + at3 (param path) 1 + at3 (param path) 2)
   \<and> (valid_path path \<and> 0 \<le> t \<and> t < dubins_path_length path \<longrightarrow>
        fst (dubins_path_sample path t q) = EDUBOK
        \<and> (\<forall>q'. snd (dubins_path_sample path t q') = snd (dubins_path_sample path t q)))"
  by (simp add: dubins_path_sample_def Let_def path_length_eq split: prod.splits)

theorem path_sample_range_witness:
  "valid_path \<lparr>qi = (1, 2, 3), param = (1, 2, 3), rho = 2, type = 1\<rparr>
   \<and> (0::real) \<le> 5
   \<and> 5 < dubins_path_length \<lparr>qi = (1, 2, 3), param = (1, 2, 3), rho = 2, type = 1\<rparr>
   \<and> fst (dubins_path_sample \<lparr>qi = (1, 2, 3), param = (1, 2, 3), rho = 2, type = 1\<rparr> 5 (0, 0, 0))
       = EDUBOK
   \<and> fst (dubins_path_sample \<lparr>qi = (1, 2, 3), param = (1, 2, 3), rho = 2, type = 1\<rparr> 12 (0, 0, 0))
       = EDUBPARAM
   \<and> fst (dubins_path_sample \<lparr>qi = (1, 2, 3), param = (1, 2, 3), rho = 2, type = 1\<rparr> (- 1) (0, 0, 0))
       = EDUBPARAM"
  using
    path_sample_range [of "\<lparr>qi = (1, 2, 3), param = (1, 2, 3), rho = 2, type = 1\<rparr>" 5 "(0, 0, 0)"]
    path_sample_range [of "\<lparr>qi = (1, 2, 3), param = (1, 2, 3), rho = 2, type = 1\<rparr>" 12 "(0, 0, 0)"]
    path_sample_range [of "\<lparr>qi = (1, 2, 3), param = (1, 2, 3), rho = 2, type = 1\<rparr>" "- 1" "(0, 0, 0)"]
  by (simp add: valid_path_def)

section \<open>Sampling at the start\<close>






section \<open>Rounding\<close>

text \<open>
  What \<open>rnd\<close> does to a number that binary64 represents, to a number near one, to a number
  below the least subnormal, and to one beyond the largest finite number.
\<close>

lemma rhe_of_int: "rhe (of_int k) = k"
  by (simp add: rhe_def)

lemma rhe_cases: "rhe m = \<lfloor>m\<rfloor> \<or> rhe m = \<lfloor>m\<rfloor> + 1"
  by (simp add: rhe_def Let_def)

lemma rhe_nonneg: "0 \<le> m \<Longrightarrow> 0 \<le> rhe m"
  using rhe_cases [of m] by (auto simp: zero_le_floor)

lemma rhe_nonpos: "m \<le> 0 \<Longrightarrow> rhe m \<le> 0"
proof -
  assume m: "m \<le> 0"
  show ?thesis
  proof (cases "m = of_int \<lfloor>m\<rfloor>")
    case True
    then have "rhe m = \<lfloor>m\<rfloor>" by (metis rhe_of_int)
    moreover from m have "\<lfloor>m\<rfloor> \<le> 0" by linarith
    ultimately show ?thesis by linarith
  next
    case False
    then have "of_int \<lfloor>m\<rfloor> < m" using of_int_floor_le [of m] by linarith
    with m have "\<lfloor>m\<rfloor> < 0" by linarith
    with rhe_cases [of m] show ?thesis by linarith
  qed
qed

lemma rhe_small: "\<bar>m\<bar> \<le> 1 / 2 \<Longrightarrow> rhe m = 0"
proof -
  assume a: "\<bar>m\<bar> \<le> 1 / 2"
  show ?thesis
  proof (cases "0 \<le> m")
    case True
    with a have f: "\<lfloor>m\<rfloor> = 0" by linarith
    with a True show ?thesis by (auto simp: rhe_def Let_def)
  next
    case False
    with a have f: "\<lfloor>m\<rfloor> = - 1" by linarith
    with a False show ?thesis by (auto simp: rhe_def Let_def)
  qed
qed

lemma rhe_below: "m < - (1 / 2) \<Longrightarrow> rhe m \<le> - 1"
proof -
  assume a: "m < - (1 / 2)"
  then have f: "\<lfloor>m\<rfloor> \<le> - 1" by linarith
  show ?thesis
  proof (cases "\<lfloor>m\<rfloor> = - 1")
    case True
    with a have "m - of_int \<lfloor>m\<rfloor> < 1 / 2" by simp
    then have "rhe m = \<lfloor>m\<rfloor>" by (simp add: rhe_def Let_def)
    with True show ?thesis by linarith
  next
    case False
    with f have "\<lfloor>m\<rfloor> \<le> - 2" by linarith
    with rhe_cases [of m] show ?thesis by linarith
  qed
qed





lemma rnd_zero: "rnd 0 = Fin 0"
  by (simp add: rnd_def)

lemma two_powr_int: "2 powr (real_of_int n) = (2::real) powi n"
  by (rule powr_real_of_int') simp_all

lemma floor_log2_iff:
  assumes "0 < x"
  shows "\<lfloor>log 2 x\<rfloor> = L \<longleftrightarrow> 2 powi L \<le> x \<and> x < 2 powi (L + 1)"
proof -
  have "\<lfloor>log 2 x\<rfloor> = L \<longleftrightarrow> 2 powr (real_of_int L) \<le> x \<and> x < 2 powr (real_of_int (L + 1))"
    using assms floor_log_eq_powr_iff [of x 2 L] by simp
  then show ?thesis
    unfolding two_powr_int .
qed

lemma floor_log2_bounds:
  assumes "0 < x"
  shows "2 powi \<lfloor>log 2 x\<rfloor> \<le> x" and "x < 2 powi (\<lfloor>log 2 x\<rfloor> + 1)"
  using floor_log2_iff [OF assms, of "\<lfloor>log 2 x\<rfloor>"] by simp_all

lemma floor_log2_eq:
  assumes "2 powi L \<le> x" and "x < 2 powi (L + 1)"
  shows "\<lfloor>log 2 x\<rfloor> = L"
proof -
  have "0 < x" using assms(1) zero_less_power_int [of "2::real" L] by linarith
  then show ?thesis
    using assms floor_log2_iff [of x L] by simp
qed

lemma powi_less_imp: "(2::real) powi a < 2 powi b \<Longrightarrow> a < b"
proof (rule ccontr)
  assume lt: "(2::real) powi a < 2 powi b" and "\<not> a < b"
  then have "b \<le> a" by simp
  then have "(2::real) powi b \<le> 2 powi a" by (intro power_int_increasing) simp_all
  with lt show False by simp
qed

lemma powi_le_imp: "(2::real) powi a \<le> 2 powi b \<Longrightarrow> a \<le> b"
proof (rule ccontr)
  assume le: "(2::real) powi a \<le> 2 powi b" and "\<not> a \<le> b"
  then have "b < a" by simp
  then have "(2::real) powi b < 2 powi a" by (intro power_int_strict_increasing) simp_all
  with le show False by simp
qed

lemma quantum_exp_eq:
  assumes "2 powi L \<le> \<bar>x\<bar>" and "\<bar>x\<bar> < 2 powi (L + 1)"
  shows "quantum_exp x = max (L - 52) (- 1074)"
  using floor_log2_eq [OF assms] by (simp add: quantum_exp_def)

lemma quantum_le_abs:
  assumes "x \<noteq> 0" and "- 1074 < \<lfloor>log 2 \<bar>x\<bar>\<rfloor> - 52"
  shows "2 powi quantum_exp x * 2 ^ 52 \<le> \<bar>x\<bar>"
proof -
  define L where "L = \<lfloor>log 2 \<bar>x\<bar>\<rfloor>"
  from assms(1) have "2 powi L \<le> \<bar>x\<bar>"
    unfolding L_def by (intro floor_log2_bounds) simp
  moreover from assms(2) have "quantum_exp x = L - 52"
    by (simp add: quantum_exp_def L_def)
  moreover have "(2::real) powi (L - 52) * 2 ^ 52 = 2 powi L"
    by (simp add: power_int_diff)
  ultimately show ?thesis by simp
qed

lemma rnd_exact:
  assumes x: "x = of_int m * 2 powi e" and m: "\<bar>m\<bar> < 2 ^ 53"
    and e: "- 1074 \<le> e" and fin: "\<bar>x\<bar> < huge"
  shows "rnd x = Fin x"
proof (cases "x = 0")
  case True
  then show ?thesis by (simp add: rnd_zero)
next
  case False
  define L where "L = \<lfloor>log 2 \<bar>x\<bar>\<rfloor>"
  define e' where "e' = quantum_exp x"
  from False have lo: "2 powi L \<le> \<bar>x\<bar>"
    unfolding L_def by (intro floor_log2_bounds) simp
  have "\<bar>x\<bar> = of_int \<bar>m\<bar> * 2 powi e"
    by (simp add: x abs_mult)
  also have "\<dots> < 2 ^ 53 * 2 powi e"
  proof (rule mult_strict_right_mono)
    from m have "real_of_int \<bar>m\<bar> < real_of_int (2 ^ 53)" by (simp only: of_int_less_iff)
    then show "real_of_int \<bar>m\<bar> < 2 ^ 53" by simp
  qed simp
  also have "\<dots> = 2 powi (53 + e)"
    by (simp add: power_int_add)
  finally have "(2::real) powi L < 2 powi (53 + e)" using lo by simp
  then have "L < 53 + e" by (rule powi_less_imp)
  with e have le: "e' \<le> e"
    by (simp add: e'_def quantum_exp_def L_def)
  define k where "k = m * 2 ^ nat (e - e')"
  have "(2::real) powi e = 2 powi (e - e') * 2 powi e'"
    by (simp flip: power_int_add)
  also have "(2::real) powi (e - e') = 2 ^ nat (e - e')"
    using le by (simp add: power_int_nonneg_exp)
  finally have xk: "x = of_int k * 2 powi e'"
    by (simp add: x k_def)
  then have "x / 2 powi e' = of_int k" by simp
  then have "of_int (rhe (x / 2 powi e')) * 2 powi e' = x"
    by (simp add: rhe_of_int xk)
  moreover from fin have "\<not> huge \<le> x" "\<not> x \<le> - huge" by linarith+
  ultimately show ?thesis
    using False by (simp add: rnd_def Let_def e'_def [symmetric])
qed

lemma rnd_int:
  assumes "\<bar>n\<bar> < 2 ^ 53"
  shows "rnd (of_int n) = Fin (of_int n)"
proof (rule rnd_exact [where m = n and e = 0])
  from assms have "real_of_int \<bar>n\<bar> < real_of_int (2 ^ 53)" by (simp only: of_int_less_iff)
  also have "\<dots> < huge" unfolding huge_def by simp
  finally show "\<bar>real_of_int n\<bar> < huge" by simp
qed (use assms in simp_all)


lemma rnd_numeral:
  assumes "(numeral k :: int) < 2 ^ 53"
  shows "rnd (numeral k) = Fin (numeral k)"
  using rnd_int [of "numeral k"] assms by simp

lemma rnd_neg_numeral:
  assumes "(numeral k :: int) < 2 ^ 53"
  shows "rnd (- numeral k) = Fin (- numeral k)"
  using rnd_int [of "- numeral k"] assms by simp

lemma rnd_one: "rnd 1 = Fin 1"
  using rnd_int [of 1] by simp

lemma huge_pos: "0 < huge"
  by (simp add: huge_def)

lemma rnd_nonneg: "0 \<le> x \<Longrightarrow> dle (Fin 0) (rnd x)"
proof -
  assume x: "0 \<le> x"
  define y where "y = real_of_int (rhe (x / 2 powi quantum_exp x)) * 2 powi quantum_exp x"
  from x have "0 \<le> x / 2 powi quantum_exp x" by simp
  then have "0 \<le> rhe (x / 2 powi quantum_exp x)" by (rule rhe_nonneg)
  then have "0 \<le> y" by (simp add: y_def)
  with huge_pos have "\<not> y \<le> - huge" by linarith
  with \<open>0 \<le> y\<close> show ?thesis
    by (simp add: rnd_def Let_def y_def [symmetric])
qed

lemma rnd_nonpos: "x \<le> 0 \<Longrightarrow> dle (rnd x) (Fin 0)"
proof -
  assume x: "x \<le> 0"
  define y where "y = real_of_int (rhe (x / 2 powi quantum_exp x)) * 2 powi quantum_exp x"
  from x have "x / 2 powi quantum_exp x \<le> 0" by (simp add: divide_le_0_iff)
  then have "rhe (x / 2 powi quantum_exp x) \<le> 0" by (rule rhe_nonpos)
  then have "y \<le> 0" by (simp add: y_def mult_le_0_iff)
  with huge_pos have "\<not> huge \<le> y" by linarith
  with \<open>y \<le> 0\<close> show ?thesis
    by (simp add: rnd_def Let_def y_def [symmetric])
qed

lemma half_quantum: "(2::real) powi (- 1075) = 2 powi (- 1074) / 2"
proof -
  have "(2::real) powi (- 1074) = 2 powi (- 1075 + 1)" by simp
  also have "\<dots> = 2 powi (- 1075) * 2" by (subst power_int_add) simp_all
  finally show ?thesis by simp
qed

lemma quantum_exp_tiny:
  assumes "x \<noteq> 0" and "\<bar>x\<bar> < 2 powi (- 1022)"
  shows "quantum_exp x = - 1074"
proof -
  from assms(1) have "2 powi \<lfloor>log 2 \<bar>x\<bar>\<rfloor> \<le> \<bar>x\<bar>"
    by (intro floor_log2_bounds) simp
  with assms(2) have "(2::real) powi \<lfloor>log 2 \<bar>x\<bar>\<rfloor> < 2 powi (- 1022)" by linarith
  then have "\<lfloor>log 2 \<bar>x\<bar>\<rfloor> < - 1022" by (rule powi_less_imp)
  then have "\<lfloor>log 2 \<bar>x\<bar>\<rfloor> - 52 \<le> - 1074" by linarith
  then show ?thesis unfolding quantum_exp_def by (rule max_absorb2)
qed

lemma rnd_tiny:
  assumes "\<bar>x\<bar> \<le> 2 powi (- 1075)"
  shows "rnd x = Fin 0"
proof (cases "x = 0")
  case True
  then show ?thesis by (simp add: rnd_zero)
next
  case False
  have "(2::real) powi (- 1075) < 2 powi (- 1022)"
    by (intro power_int_strict_increasing) simp_all
  with assms have "\<bar>x\<bar> < 2 powi (- 1022)" by linarith
  with False have q: "quantum_exp x = - 1074" by (rule quantum_exp_tiny)
  from assms have "\<bar>x\<bar> \<le> 2 powi (- 1074) / 2" by (simp only: half_quantum)
  then have "\<bar>x\<bar> / 2 powi (- 1074) \<le> 1 / 2"
    by (simp add: pos_divide_le_eq del: power_int_numeral_neg_numeral)
  then have "\<bar>x / 2 powi (- 1074)\<bar> \<le> 1 / 2"
    by (simp add: abs_divide del: power_int_numeral_neg_numeral)
  then have "rhe (x / 2 powi (- 1074)) = 0" by (rule rhe_small)
  with False huge_pos show ?thesis
    by (simp add: rnd_def Let_def q del: power_int_numeral_neg_numeral)
qed

lemma rnd_negative:
  assumes "x < - (2 powi (- 1075))"
  shows "dless (rnd x) (Fin 0)"
proof -
  define q where "q = (2::real) powi quantum_exp x"
  have qpos: "0 < q" by (simp add: q_def)
  have x0: "x \<noteq> 0" "x < 0"
    using assms zero_less_power_int [of "2::real" "- 1075"] by linarith+
  have m: "x / q < - (1 / 2)"
  proof (cases "- 1074 < \<lfloor>log 2 \<bar>x\<bar>\<rfloor> - 52")
    case True
    from quantum_le_abs [OF x0(1) True] have "2 ^ 52 * q \<le> - x"
      using x0(2) by (simp add: q_def mult.commute)
    then have "2 ^ 52 \<le> (- x) / q"
      using qpos pos_le_divide_eq [of q "2 ^ 52" "- x"] by blast
    moreover have "(1::real) / 2 < 2 ^ 52" by simp
    ultimately have "1 / 2 < (- x) / q" by linarith
    moreover have "(- x) / q = - (x / q)" by simp
    ultimately show ?thesis by linarith
  next
    case False
    then have "\<lfloor>log 2 \<bar>x\<bar>\<rfloor> - 52 \<le> - 1074" by linarith
    then have "quantum_exp x = - 1074" unfolding quantum_exp_def by (rule max_absorb2)
    then have qv: "q = 2 powi (- 1074)" by (simp add: q_def del: power_int_numeral_neg_numeral)
    from assms have "x < - (q / 2)" by (simp only: half_quantum qv)
    then have "x / q < - (1 / 2)"
      using qpos by (simp add: pos_divide_less_eq)
    then show ?thesis .
  qed
  then have "rhe (x / q) \<le> - 1" by (rule rhe_below)
  then have "real_of_int (rhe (x / q)) \<le> - 1" by linarith
  then have "real_of_int (rhe (x / q)) * q \<le> - 1 * q"
    using qpos by (intro mult_right_mono) simp_all
  with qpos have neg: "real_of_int (rhe (x / q)) * q < 0" by linarith
  with huge_pos have "\<not> huge \<le> real_of_int (rhe (x / q)) * q" by linarith
  with neg x0 show ?thesis
    by (simp add: rnd_def Let_def q_def [symmetric])
qed

lemma rnd_overflow:
  assumes "huge \<le> x"
  shows "rnd x = PInf"
proof -
  have xpos: "0 < x" using assms huge_pos by linarith
  define L where "L = \<lfloor>log 2 \<bar>x\<bar>\<rfloor>"
  define q where "q = (2::real) powi quantum_exp x"
  have qpos: "0 < q" by (simp add: q_def)
  have lo: "2 powi L \<le> x" and hi: "x < 2 powi (L + 1)"
    using floor_log2_bounds [of "\<bar>x\<bar>"] xpos by (simp_all add: L_def)
  have "(2::real) powi 1024 = huge" by (simp add: huge_def)
  with assms hi have "(2::real) powi 1024 < 2 powi (L + 1)" by linarith
  then have L: "1024 \<le> L" using powi_less_imp [of 1024 "L + 1"] by linarith
  then have qe: "quantum_exp x = L - 52"
    by (simp add: quantum_exp_def L_def)
  have qL: "q * 2 ^ 52 = 2 powi L"
    by (simp add: q_def qe power_int_diff)
  from lo qL have "2 ^ 52 * q \<le> x" by (simp add: mult.commute)
  then have "2 ^ 52 \<le> x / q"
    using qpos pos_le_divide_eq [of q "2 ^ 52" x] by blast
  then have "(2 ^ 52 :: int) \<le> \<lfloor>x / q\<rfloor>"
    by (simp add: le_floor_iff)
  moreover have "\<lfloor>x / q\<rfloor> \<le> rhe (x / q)"
    using rhe_cases [of "x / q"] by linarith
  ultimately have "(2 ^ 52 :: int) \<le> rhe (x / q)" by linarith
  then have "real_of_int (2 ^ 52) \<le> real_of_int (rhe (x / q))"
    by (simp only: of_int_le_iff)
  then have "2 ^ 52 * q \<le> real_of_int (rhe (x / q)) * q"
    using qpos by (intro mult_right_mono) simp_all
  with qL have "2 powi L \<le> real_of_int (rhe (x / q)) * q" by (simp add: mult.commute)
  moreover have "huge \<le> 2 powi L"
  proof -
    have "(2::real) powi 1024 \<le> 2 powi L" using L by (intro power_int_increasing) simp_all
    then show ?thesis by (simp add: huge_def)
  qed
  ultimately have "huge \<le> real_of_int (rhe (x / q)) * q" by linarith
  with xpos show ?thesis
    by (simp add: rnd_def Let_def q_def [symmetric])
qed

lemma rnd_eval:
  assumes "2 powi L \<le> \<bar>x\<bar>" and "\<bar>x\<bar> < 2 powi (L + 1)"
    and "e = max (L - 52) (- 1074)"
    and "rhe (x / 2 powi e) = k"
    and "\<bar>of_int k * 2 powi e\<bar> < huge"
  shows "rnd x = Fin (of_int k * 2 powi e)"
proof -
  have "0 < \<bar>x\<bar>"
    using assms(1) zero_less_power_int [of "2::real" L] by linarith
  then have "x \<noteq> 0" by simp
  moreover have "quantum_exp x = e"
    using quantum_exp_eq [OF assms(1,2)] assms(3) by simp
  moreover from assms(5) have "\<not> huge \<le> of_int k * 2 powi e" "\<not> of_int k * 2 powi e \<le> - huge"
    by linarith+
  ultimately show ?thesis
    using assms(4) by (simp add: rnd_def Let_def)
qed









section \<open>Comparisons and operations\<close>

lemma dless_trans_le: "dless a b \<Longrightarrow> dle b c \<Longrightarrow> dless a c"
  by (cases a; cases b; cases c) simp_all

lemma dless_imp_dle: "dless a b \<Longrightarrow> dle a b"
  by (cases a; cases b) simp_all

lemma not_dless_dle: "\<not> dless a b \<Longrightarrow> dless a PInf \<Longrightarrow> dless b PInf \<Longrightarrow> dle b a"
  by (cases a; cases b) simp_all

lemma dle_refl_below: "dless a PInf \<Longrightarrow> dle a a"
  by (cases a) simp_all

lemma dless_PInf_right: "dless a b \<Longrightarrow> dless a PInf"
  by (cases a; cases b) simp_all

lemma dle_trans: "dle a b \<Longrightarrow> dle b c \<Longrightarrow> dle a c"
  by (cases a; cases b; cases c) simp_all

lemma dle_refl_of: "dle c a \<Longrightarrow> dle a a"
  by (cases a; cases c) simp_all




lemma dadd_nonneg: "dle (Fin 0) a \<Longrightarrow> dle (Fin 0) b \<Longrightarrow> dle (Fin 0) (dadd a b)"
  by (cases a; cases b) (simp_all add: rnd_nonneg)

lemma dmul_nonneg: "dle (Fin 0) a \<Longrightarrow> dless (Fin 0) b \<Longrightarrow> nan_or_nonneg (dmul a b)"
  by (cases a; cases b) (auto simp: nan_or_nonneg_def rnd_nonneg)

lemma ddiv_nonneg: "dle (Fin 0) a \<Longrightarrow> dless (Fin 0) b \<Longrightarrow> nan_or_nonneg (ddiv a b)"
  by (cases a; cases b) (auto simp: nan_or_nonneg_def rnd_nonneg)

lemma dsub_nonneg: "dle b a \<Longrightarrow> dsub a b = NaN \<or> dle (Fin 0) (dsub a b)"
  by (cases a; cases b) (simp_all add: dsub_def rnd_nonneg)


lemma dsub_NaN_left: "dsub NaN b = NaN"
  by (simp add: dsub_def)


lemma dmul_NaN_right: "dmul a NaN = NaN"
  by (cases a) simp_all




lemma dsub_zero_zero: "dsub (Fin 0) (Fin 0) = Fin 0"
  by (simp add: dsub_def rnd_zero)

lemma dfmin_le_left: "dle a a \<Longrightarrow> dle (dfmin a b) a"
  by (cases a; cases b) simp_all

lemma dfmin_le_right: "dle a a \<Longrightarrow> dle b b \<Longrightarrow> dle (dfmin a b) b"
  by (cases a; cases b) simp_all

lemma dfmin_nonneg: "dle (Fin 0) a \<Longrightarrow> b = NaN \<or> dle (Fin 0) b \<Longrightarrow> dle (Fin 0) (dfmin a b)"
  by (cases a; cases b) auto

lemma dfmin_nonpos: "dle (Fin 0) a \<Longrightarrow> dle b (Fin 0) \<Longrightarrow> dfmin a b = b"
  by (cases a; cases b) auto

lemma dfmin_zero_right: "dle (Fin 0) a \<Longrightarrow> dfmin a (Fin 0) = Fin 0"
  by (cases a) auto

lemma dfmin_keep: "dle a b \<Longrightarrow> dfmin a b = a"
  by (cases a; cases b) auto

lemma ddiv_neg_pos:
  assumes "x < 0" and "dless (Fin 0) r"
  shows "dle (ddiv (Fin x) r) (Fin 0)"
proof (cases r)
  case (Fin v)
  with assms have "0 < v" by simp
  with assms(1) have "x / v \<le> 0" by (simp add: divide_le_0_iff)
  then have "dle (rnd (x / v)) (Fin 0)" by (rule rnd_nonpos)
  with Fin \<open>0 < v\<close> show ?thesis by simp
qed (use assms in simp_all)







section \<open>The ring modulus on binary64 numbers\<close>

text \<open>
  \<^verbatim>\<open>mod2pi\<close> returns a number of magnitude up to the least subnormal as it is, a negative one
  included: the quotient by \<^verbatim>\<open>2 * M_PI\<close> rounds to zero. On the rounded value of a number in
  \<open>(0, 2 * M_PI]\<close> its result is not negative.
\<close>

lemma two_pi_f64: "dmul (Fin 2) M_PI = Fin (884279719003555 / 2 ^ 47)"
proof -
  have "rnd (884279719003555 / 2 ^ 47) = Fin (884279719003555 / 2 ^ 47)"
    by (rule rnd_exact [where m = 884279719003555 and e = "- 47"])
       (simp_all add: huge_def)
  then show ?thesis by (simp add: M_PI_def)
qed

lemma mod2pi_f64_zero: "mod2pi_f64 (Fin 0) = Fin 0"
  by (simp add: mod2pi_f64_def fmodr_f64_def two_pi_f64 dsub_def rnd_zero)





section \<open>The selection loop on binary64 numbers\<close>

lemma cost_middle_PInf: "\<not> dless (word_cost_f64 (t, PInf, q)) b"
  by (cases t; cases q; cases b) (simp_all add: word_cost_f64_def)




lemma init_loop_f64_append:
  "init_loop_f64 ws alpha beta d (xs @ ys) s
     = init_loop_f64 ws alpha beta d ys (init_loop_f64 ws alpha beta d xs s)"
  by (induction xs arbitrary: s) simp_all

lemma init_step_f64_skip:
  assumes "\<And>ps. \<not> (eligible_f64 ws alpha beta d n ps \<and> dless (word_cost_f64 ps) (best_cost_f s))"
  shows "init_step_f64 ws alpha beta d n s = s"
proof (cases "(ws ! n) alpha beta d")
  case (Inl e)
  then show ?thesis by (simp add: init_step_f64_def)
next
  case (Inr ps)
  have "\<not> dless (word_cost_f64 ps) (best_cost_f s)"
  proof
    assume l: "dless (word_cost_f64 ps) (best_cost_f s)"
    then have "dless (word_cost_f64 ps) PInf" by (rule dless_PInf_right)
    with Inr have "eligible_f64 ws alpha beta d n ps" by (simp add: eligible_f64_def)
    with l assms show False by blast
  qed
  with Inr show ?thesis by (simp add: init_step_f64_def Let_def)
qed

lemma init_step_f64_take:
  assumes "(ws ! n) alpha beta d = Inr ps" and "dless (word_cost_f64 ps) (best_cost_f s)"
  shows "init_step_f64 ws alpha beta d n s
    = s\<lparr>best_word_f := int n, best_cost_f := word_cost_f64 ps,
         out_path_f := (out_path_f s)\<lparr>param_f := ps, type_f := int n\<rparr>\<rparr>"
  using assms by (simp add: init_step_f64_def Let_def)

lemma first_minimum_f64_keep:
  assumes "first_minimum_f64 ws alpha beta d n k ps"
    and "\<And>ps'. eligible_f64 ws alpha beta d n ps' \<Longrightarrow> dle (word_cost_f64 ps) (word_cost_f64 ps')"
  shows "first_minimum_f64 ws alpha beta d (Suc n) k ps"
  using assms unfolding first_minimum_f64_def by (auto simp: less_Suc_eq)

lemma first_minimum_f64_new:
  assumes "eligible_f64 ws alpha beta d n ps"
    and "\<And>j ps'. j < n \<Longrightarrow> eligible_f64 ws alpha beta d j ps'
           \<Longrightarrow> dless (word_cost_f64 ps) (word_cost_f64 ps')"
  shows "first_minimum_f64 ws alpha beta d (Suc n) n ps"
proof -
  have "dle (word_cost_f64 ps) (word_cost_f64 ps')"
    if "j < Suc n" "eligible_f64 ws alpha beta d j ps'" for j ps'
  proof (cases "j = n")
    case True
    with that assms(1) have "ps' = ps" by (simp add: eligible_f64_def)
    moreover from assms(1) have "dle (word_cost_f64 ps) (word_cost_f64 ps)"
      by (simp add: eligible_f64_def dle_refl_below)
    ultimately show ?thesis by simp
  next
    case False
    with that have "j < n" by simp
    with that assms(2) show ?thesis by (simp add: dless_imp_dle)
  qed
  with assms show ?thesis
    unfolding first_minimum_f64_def by blast
qed

lemma loop_inv_f64_step:
  assumes "loop_inv_f64 ws alpha beta d path n s"
  shows "loop_inv_f64 ws alpha beta d path (Suc n) (init_step_f64 ws alpha beta d n s)"
proof -
  consider
    (none) "\<forall>j<n. \<forall>ps. \<not> eligible_f64 ws alpha beta d j ps"
      "s = \<lparr>best_cost_f = PInf, best_word_f = - 1, out_path_f = path\<rparr>"
  | (some) k ps where "first_minimum_f64 ws alpha beta d n k ps"
      "s = \<lparr>best_cost_f = word_cost_f64 ps, best_word_f = int k,
            out_path_f = path\<lparr>param_f := ps, type_f := int k\<rparr>\<rparr>"
    using assms unfolding loop_inv_f64_def by blast
  then show ?thesis
  proof cases
    case none
    show ?thesis
    proof (cases "\<exists>psn. eligible_f64 ws alpha beta d n psn")
      case True
      then obtain psn where el: "eligible_f64 ws alpha beta d n psn" by blast
      then have r: "(ws ! n) alpha beta d = Inr psn" and c: "dless (word_cost_f64 psn) PInf"
        by (simp_all add: eligible_f64_def)
      from c none(2) have "dless (word_cost_f64 psn) (best_cost_f s)" by simp
      from init_step_f64_take [OF r this]
      have new: "init_step_f64 ws alpha beta d n s
          = \<lparr>best_cost_f = word_cost_f64 psn, best_word_f = int n,
              out_path_f = path\<lparr>param_f := psn, type_f := int n\<rparr>\<rparr>"
        by (simp add: none(2))
      from none(1) have "first_minimum_f64 ws alpha beta d (Suc n) n psn"
        by (intro first_minimum_f64_new [OF el]) blast
      with new show ?thesis unfolding loop_inv_f64_def by blast
    next
      case False
      then have same: "init_step_f64 ws alpha beta d n s = s"
        by (intro init_step_f64_skip) blast
      from none(1) False have "\<forall>j<Suc n. \<forall>ps. \<not> eligible_f64 ws alpha beta d j ps"
        by (auto simp: less_Suc_eq)
      with none(2) show ?thesis unfolding loop_inv_f64_def same by blast
    qed
  next
    case some
    from some(1) have elk: "dless (word_cost_f64 ps) PInf"
      by (simp add: first_minimum_f64_def eligible_f64_def)
    show ?thesis
    proof (cases "\<exists>psn. eligible_f64 ws alpha beta d n psn
                    \<and> dless (word_cost_f64 psn) (word_cost_f64 ps)")
      case True
      then obtain psn where el: "eligible_f64 ws alpha beta d n psn"
        and lt: "dless (word_cost_f64 psn) (word_cost_f64 ps)" by blast
      from el have r: "(ws ! n) alpha beta d = Inr psn" by (simp add: eligible_f64_def)
      from lt some(2) have "dless (word_cost_f64 psn) (best_cost_f s)" by simp
      from init_step_f64_take [OF r this]
      have new: "init_step_f64 ws alpha beta d n s
          = \<lparr>best_cost_f = word_cost_f64 psn, best_word_f = int n,
              out_path_f = path\<lparr>param_f := psn, type_f := int n\<rparr>\<rparr>"
        by (simp add: some(2))
      have "first_minimum_f64 ws alpha beta d (Suc n) n psn"
      proof (rule first_minimum_f64_new [OF el])
        fix j ps'
        assume "j < n" "eligible_f64 ws alpha beta d j ps'"
        with some(1) have "dle (word_cost_f64 ps) (word_cost_f64 ps')"
          unfolding first_minimum_f64_def by blast
        with lt show "dless (word_cost_f64 psn) (word_cost_f64 ps')"
          by (rule dless_trans_le)
      qed
      with new show ?thesis unfolding loop_inv_f64_def by blast
    next
      case False
      have bc: "best_cost_f s = word_cost_f64 ps" by (simp add: some(2))
      from False have "\<not> (eligible_f64 ws alpha beta d n psn
            \<and> dless (word_cost_f64 psn) (best_cost_f s))" for psn
        unfolding bc by blast
      then have same: "init_step_f64 ws alpha beta d n s = s"
        by (rule init_step_f64_skip)
      have "first_minimum_f64 ws alpha beta d (Suc n) k ps"
      proof (rule first_minimum_f64_keep [OF some(1)])
        fix ps'
        assume el: "eligible_f64 ws alpha beta d n ps'"
        with False have "\<not> dless (word_cost_f64 ps') (word_cost_f64 ps)" by blast
        moreover from el have "dless (word_cost_f64 ps') PInf" by (simp add: eligible_f64_def)
        ultimately show "dle (word_cost_f64 ps) (word_cost_f64 ps')"
          using elk by (intro not_dless_dle)
      qed
      with some(2) show ?thesis unfolding loop_inv_f64_def same by blast
    qed
  qed
qed

lemma loop_inv_f64_upto:
  "loop_inv_f64 ws alpha beta d path n
     (init_loop_f64 ws alpha beta d [0..<n]
        \<lparr>best_cost_f = PInf, best_word_f = - 1, out_path_f = path\<rparr>)"
proof (induction n)
  case 0
  show ?case by (simp add: loop_inv_f64_def)
next
  case (Suc n)
  then show ?case
    by (simp add: init_loop_f64_append loop_inv_f64_step)
qed

lemma init_normalised_f64_cases:
  "((\<forall>j<6. \<forall>ps. \<not> eligible_f64 ws alpha beta d j ps)
      \<and> dubins_init_normalised_f64_with ws alpha beta d path = (EDUBNOPATH, path))
   \<or> (\<exists>k ps. first_minimum_f64 ws alpha beta d 6 k ps
      \<and> dubins_init_normalised_f64_with ws alpha beta d path
          = (EDUBOK, path\<lparr>param_f := ps, type_f := int k\<rparr>))"
proof -
  define s where "s = init_loop_f64 ws alpha beta d [0..<6]
    \<lparr>best_cost_f = PInf, best_word_f = - 1, out_path_f = path\<rparr>"
  have r: "dubins_init_normalised_f64_with ws alpha beta d path
      = (if best_word_f s = - 1 then (EDUBNOPATH, out_path_f s)
         else (EDUBOK, (out_path_f s)\<lparr>type_f := best_word_f s\<rparr>))"
    by (simp add: dubins_init_normalised_f64_with_def s_def Let_def)
  have "loop_inv_f64 ws alpha beta d path 6 s"
    unfolding s_def by (rule loop_inv_f64_upto)
  then consider
    (none) "\<forall>j<6. \<forall>ps. \<not> eligible_f64 ws alpha beta d j ps"
      "s = \<lparr>best_cost_f = PInf, best_word_f = - 1, out_path_f = path\<rparr>"
  | (some) k ps where "first_minimum_f64 ws alpha beta d 6 k ps"
      "s = \<lparr>best_cost_f = word_cost_f64 ps, best_word_f = int k,
            out_path_f = path\<lparr>param_f := ps, type_f := int k\<rparr>\<rparr>"
    unfolding loop_inv_f64_def by blast
  then show ?thesis
  proof cases
    case none
    then show ?thesis by (simp add: r)
  next
    case some
    have "dubins_init_normalised_f64_with ws alpha beta d path
        = (EDUBOK, path\<lparr>param_f := ps, type_f := int k\<rparr>)"
      by (simp add: r some(2))
    with some(1) show ?thesis by blast
  qed
qed

section \<open>Selection of the cheapest word\<close>

text \<open>
  The solvers at \<open>alpha = beta = 0\<close> and the distance \<open>2 ^ 600\<close>, whose square overflows, and
  at the distance 4.
\<close>

lemma big_facts:
  assumes "b = 2 ^ 600"
  shows "0 < b" and "rnd b = Fin b" and "rnd (2 * b) = Fin (2 * b)" and "rnd (b * b) = PInf"
proof -
  show "0 < b" by (simp add: assms)
  show "rnd b = Fin b"
    by (rule rnd_exact [where m = 1 and e = 600]) (simp_all add: assms huge_def)
  show "rnd (2 * b) = Fin (2 * b)"
    by (rule rnd_exact [where m = 1 and e = 601]) (simp_all add: assms huge_def)
  show "rnd (b * b) = PInf"
    by (rule rnd_overflow) (simp add: assms huge_def)
qed

lemma LSL_f64_big:
  assumes "b = 2 ^ 600"
  shows "dubins_LSL_f64 (Fin 0) (Fin 0) (Fin b) = Inr (Fin 0, PInf, Fin 0)"
  using big_facts [OF assms]
  by (simp add: dubins_LSL_f64_def Let_def dsub_def rnd_zero rnd_one rnd_numeral mod2pi_f64_zero
      atan2_def)

lemma RSR_f64_big:
  assumes "b = 2 ^ 600"
  shows "dubins_RSR_f64 (Fin 0) (Fin 0) (Fin b) = Inr (Fin 0, PInf, Fin 0)"
  using big_facts [OF assms]
  by (simp add: dubins_RSR_f64_def Let_def dsub_def rnd_zero rnd_one rnd_numeral mod2pi_f64_zero
      atan2_def)

lemma LSR_f64_big:
  assumes "b = 2 ^ 600"
  shows "\<exists>t q. dubins_LSR_f64 (Fin 0) (Fin 0) (Fin b) = Inr (t, PInf, q)"
  using big_facts [OF assms]
  by (simp add: dubins_LSR_f64_def Let_def dsub_def rnd_zero rnd_one rnd_numeral rnd_neg_numeral)

lemma RSL_f64_big:
  assumes "b = 2 ^ 600"
  shows "\<exists>t q. dubins_RSL_f64 (Fin 0) (Fin 0) (Fin b) = Inr (t, PInf, q)"
  using big_facts [OF assms]
  by (simp add: dubins_RSL_f64_def Let_def dsub_def rnd_zero rnd_one rnd_numeral rnd_neg_numeral)

lemma RLR_f64_big:
  assumes "b = 2 ^ 600"
  shows "dubins_RLR_f64 (Fin 0) (Fin 0) (Fin b) = Inl EDUBNOPATH"
  using big_facts [OF assms]
  by (simp add: dubins_RLR_f64_def Let_def dsub_def rnd_zero rnd_one rnd_numeral rnd_neg_numeral)

lemma LRL_f64_big:
  assumes "b = 2 ^ 600"
  shows "dubins_LRL_f64 (Fin 0) (Fin 0) (Fin b) = Inl EDUBNOPATH"
  using big_facts [OF assms]
  by (simp add: dubins_LRL_f64_def Let_def dsub_def rnd_zero rnd_one rnd_numeral rnd_neg_numeral)

lemma no_eligible_big:
  assumes "b = 2 ^ 600" and "j < 6"
  shows "\<not> eligible_f64 dubins_words_f64 (Fin 0) (Fin 0) (Fin b) j ps"
proof -
  from assms(2) have "j = 0 \<or> j = 1 \<or> j = 2 \<or> j = 3 \<or> j = 4 \<or> j = 5" by arith
  then show ?thesis
    using LSL_f64_big [OF assms(1)] RSR_f64_big [OF assms(1)] LSR_f64_big [OF assms(1)]
      RSL_f64_big [OF assms(1)] RLR_f64_big [OF assms(1)] LRL_f64_big [OF assms(1)]
    by (auto simp: eligible_f64_def dubins_words_f64_def cost_middle_PInf)
qed

lemma init_normalised_f64_big:
  assumes "b = 2 ^ 600"
  shows "dubins_init_normalised_f64 (Fin 0) (Fin 0) (Fin b) path = (EDUBNOPATH, path)"
  using init_normalised_f64_cases [of dubins_words_f64 "Fin 0" "Fin 0" "Fin b" path]
    no_eligible_big [OF assms]
  unfolding dubins_init_normalised_f64_def first_minimum_f64_def by blast

lemma LSL_f64_4: "dubins_LSL_f64 (Fin 0) (Fin 0) (Fin 4) = Inr (Fin 0, Fin 4, Fin 0)"
  by (simp add: dubins_LSL_f64_def Let_def dsub_def rnd_zero rnd_one rnd_numeral mod2pi_f64_zero
      atan2_def sqrt_16)

text \<open>
  Claim C1, as stated, fails: on an input on which a solver succeeds the synthesizer need not
  return a word. At \<open>alpha = beta = 0\<close> and \<open>d = 2 ^ 600\<close> the solver LSL succeeds with the
  middle output \<^verbatim>\<open>INFINITY\<close>, the square of \<open>d\<close> having overflowed; its cost is \<^verbatim>\<open>INFINITY\<close>, which
  is not below the initial \<^verbatim>\<open>best_cost\<close>, no other word does better, and
  \<^verbatim>\<open>dubins_init_normalised\<close> returns \<^verbatim>\<open>EDUBNOPATH\<close> with the path as it was.
\<close>

theorem init_normalised_f64_counterexample:
  "(dubins_words_f64 ! 0) (Fin 0) (Fin 0) (Fin (2 ^ 600)) = Inr (Fin 0, PInf, Fin 0)
   \<and> dubins_init_normalised_f64 (Fin 0) (Fin 0) (Fin (2 ^ 600))
        \<lparr>qi_f = (Fin 9, Fin 9, Fin 9), param_f = (Fin 9, Fin 9, Fin 9), rho_f = Fin 9, type_f = 9\<rparr>
      = (EDUBNOPATH,
        \<lparr>qi_f = (Fin 9, Fin 9, Fin 9), param_f = (Fin 9, Fin 9, Fin 9), rho_f = Fin 9, type_f = 9\<rparr>)"
  using LSL_f64_big [OF refl] init_normalised_f64_big [OF refl]
  by (simp add: dubins_words_f64_def)

text \<open>
  Claim C1, amended. The words among which \<^verbatim>\<open>dubins_init_normalised\<close> chooses are those whose
  solver succeeds with a cost \<open>t + p + q\<close> that compares below \<^verbatim>\<open>INFINITY\<close>, neither infinite
  nor NaN. When there is none, the function returns \<^verbatim>\<open>EDUBNOPATH\<close> and the path is as it was.
  When there is one, it succeeds and stores the index and the three outputs of such a word
  \<open>k\<close> whose cost is minimal among them; every such word before \<open>k\<close> in the table order LSL,
  LSR, RSL, RSR, RLR, LRL is strictly dearer, so that among equal minima the first is taken.
  The other fields of the path are left as they were. This holds for every content \<open>ws\<close> of
  the solver table, the table \<^verbatim>\<open>dubins_words\<close> of the program included.
\<close>

theorem init_normalised_f64_selects_minimum:
  "((\<forall>j<6. \<forall>ps. \<not> eligible_f64 ws alpha beta d j ps)
      \<longrightarrow> dubins_init_normalised_f64_with ws alpha beta d path = (EDUBNOPATH, path))
   \<and> ((\<exists>j<6. \<exists>ps. eligible_f64 ws alpha beta d j ps)
      \<longrightarrow> (\<exists>k<6. \<exists>ps. (ws ! k) alpha beta d = Inr ps
            \<and> dless (word_cost_f64 ps) PInf
            \<and> dubins_init_normalised_f64_with ws alpha beta d path
                = (EDUBOK, path\<lparr>param_f := ps, type_f := int k\<rparr>)
            \<and> (\<forall>j<6. \<forall>ps'. (ws ! j) alpha beta d = Inr ps' \<and> dless (word_cost_f64 ps') PInf
                  \<longrightarrow> dle (word_cost_f64 ps) (word_cost_f64 ps'))
            \<and> (\<forall>j<k. \<forall>ps'. (ws ! j) alpha beta d = Inr ps' \<and> dless (word_cost_f64 ps') PInf
                  \<longrightarrow> dless (word_cost_f64 ps) (word_cost_f64 ps'))))
   \<and> dubins_init_normalised_f64 alpha beta d path
       = dubins_init_normalised_f64_with dubins_words_f64 alpha beta d path
   \<and> dubins_words_f64 = [dubins_LSL_f64, dubins_LSR_f64, dubins_RSL_f64, dubins_RSR_f64,
        dubins_RLR_f64, dubins_LRL_f64]"
proof (intro conjI impI)
  assume none: "\<forall>j<6. \<forall>ps. \<not> eligible_f64 ws alpha beta d j ps"
  with init_normalised_f64_cases [of ws alpha beta d path]
  show "dubins_init_normalised_f64_with ws alpha beta d path = (EDUBNOPATH, path)"
    unfolding first_minimum_f64_def by blast
next
  assume some: "\<exists>j<6. \<exists>ps. eligible_f64 ws alpha beta d j ps"
  with init_normalised_f64_cases [of ws alpha beta d path]
  obtain k ps where fm: "first_minimum_f64 ws alpha beta d 6 k ps"
    and r: "dubins_init_normalised_f64_with ws alpha beta d path
          = (EDUBOK, path\<lparr>param_f := ps, type_f := int k\<rparr>)"
    by blast
  from fm have k: "k < 6" and e: "(ws ! k) alpha beta d = Inr ps"
    and c: "dless (word_cost_f64 ps) PInf"
    and m: "\<forall>j<6. \<forall>ps'. (ws ! j) alpha beta d = Inr ps' \<and> dless (word_cost_f64 ps') PInf
                  \<longrightarrow> dle (word_cost_f64 ps) (word_cost_f64 ps')"
    and f: "\<forall>j<k. \<forall>ps'. (ws ! j) alpha beta d = Inr ps' \<and> dless (word_cost_f64 ps') PInf
                  \<longrightarrow> dless (word_cost_f64 ps) (word_cost_f64 ps')"
    unfolding first_minimum_f64_def eligible_f64_def by blast+
  from k e c r m f
  show "\<exists>k<6. \<exists>ps. (ws ! k) alpha beta d = Inr ps
            \<and> dless (word_cost_f64 ps) PInf
            \<and> dubins_init_normalised_f64_with ws alpha beta d path
                = (EDUBOK, path\<lparr>param_f := ps, type_f := int k\<rparr>)
            \<and> (\<forall>j<6. \<forall>ps'. (ws ! j) alpha beta d = Inr ps' \<and> dless (word_cost_f64 ps') PInf
                  \<longrightarrow> dle (word_cost_f64 ps) (word_cost_f64 ps'))
            \<and> (\<forall>j<k. \<forall>ps'. (ws ! j) alpha beta d = Inr ps' \<and> dless (word_cost_f64 ps') PInf
                  \<longrightarrow> dless (word_cost_f64 ps) (word_cost_f64 ps'))"
    by blast
next
  show "dubins_init_normalised_f64 alpha beta d path
       = dubins_init_normalised_f64_with dubins_words_f64 alpha beta d path"
    by (simp add: dubins_init_normalised_f64_def)
next
  show "dubins_words_f64 = [dubins_LSL_f64, dubins_LSR_f64, dubins_RSL_f64, dubins_RSR_f64,
        dubins_RLR_f64, dubins_LRL_f64]"
    by (simp add: dubins_words_f64_def)
qed

theorem init_normalised_f64_selects_minimum_witness:
  "(\<exists>k ps. k < 6 \<and> (dubins_words_f64 ! k) (Fin 0) (Fin 0) (Fin 4) = Inr ps
        \<and> dle (word_cost_f64 ps) (Fin 4)
        \<and> dubins_init_normalised_f64 (Fin 0) (Fin 0) (Fin 4)
            \<lparr>qi_f = (Fin 9, Fin 9, Fin 9), param_f = (Fin 9, Fin 9, Fin 9), rho_f = Fin 9, type_f = 9\<rparr>
          = (EDUBOK, \<lparr>qi_f = (Fin 9, Fin 9, Fin 9), param_f = ps, rho_f = Fin 9, type_f = int k\<rparr>))
   \<and> dubins_init_normalised_f64_with
        [\<lambda>alpha beta d. Inr (Fin 3, Fin 1, Fin 1), \<lambda>alpha beta d. Inr (Fin 1, PInf, Fin 1),
         \<lambda>alpha beta d. Inr (Fin 1, Fin 2, Fin 1), \<lambda>alpha beta d. Inl EDUBNOPATH,
         \<lambda>alpha beta d. Inr (NaN, Fin 0, Fin 0), \<lambda>alpha beta d. Inr (Fin 2, Fin 1, Fin 1)]
        (Fin 0) (Fin 0) (Fin 4)
        \<lparr>qi_f = (Fin 9, Fin 9, Fin 9), param_f = (Fin 9, Fin 9, Fin 9), rho_f = Fin 9, type_f = 9\<rparr>
      = (EDUBOK, \<lparr>qi_f = (Fin 9, Fin 9, Fin 9), param_f = (Fin 1, Fin 2, Fin 1), rho_f = Fin 9,
           type_f = 2\<rparr>)
   \<and> dubins_init_normalised_f64_with dubins_words_f64 (Fin 0) (Fin 0) (Fin (2 ^ 600))
        \<lparr>qi_f = (Fin 9, Fin 9, Fin 9), param_f = (Fin 9, Fin 9, Fin 9), rho_f = Fin 9, type_f = 9\<rparr>
      = (EDUBNOPATH,
        \<lparr>qi_f = (Fin 9, Fin 9, Fin 9), param_f = (Fin 9, Fin 9, Fin 9), rho_f = Fin 9, type_f = 9\<rparr>)"
proof -
  let ?P = "\<lparr>qi_f = (Fin 9, Fin 9, Fin 9), param_f = (Fin 9, Fin 9, Fin 9), rho_f = Fin 9, type_f = 9\<rparr>"
  let ?T = "[\<lambda>alpha beta d. Inr (Fin 3, Fin 1, Fin 1), \<lambda>alpha beta d. Inr (Fin 1, PInf, Fin 1),
         \<lambda>alpha beta d. Inr (Fin 1, Fin 2, Fin 1), \<lambda>alpha beta d. Inl EDUBNOPATH,
         \<lambda>alpha beta d. Inr (NaN, Fin 0, Fin 0), \<lambda>alpha beta d. Inr (Fin 2, Fin 1, Fin 1)]
      :: DubinsWord_f64 list"
  note T = init_normalised_f64_selects_minimum
  have c4: "word_cost_f64 (Fin 0, Fin 4, Fin 0) = Fin 4"
    by (simp add: word_cost_f64_def rnd_numeral rnd_zero)
  have e0: "eligible_f64 dubins_words_f64 (Fin 0) (Fin 0) (Fin 4) 0 (Fin 0, Fin 4, Fin 0)"
    by (simp add: eligible_f64_def dubins_words_f64_def LSL_f64_4 c4)
  then have some: "\<exists>j<6. \<exists>ps. eligible_f64 dubins_words_f64 (Fin 0) (Fin 0) (Fin 4) j ps"
    by (intro exI [of _ 0] conjI exI [of _ "(Fin 0, Fin 4, Fin 0)"]) simp_all
  from T [of dubins_words_f64 "Fin 0" "Fin 0" "Fin 4" ?P, THEN conjunct2, THEN conjunct1, THEN mp, OF some]
  obtain k ps where k: "k < 6" and e: "(dubins_words_f64 ! k) (Fin 0) (Fin 0) (Fin 4) = Inr ps"
    and r: "dubins_init_normalised_f64_with dubins_words_f64 (Fin 0) (Fin 0) (Fin 4) ?P
                = (EDUBOK, ?P\<lparr>param_f := ps, type_f := int k\<rparr>)"
    and m: "\<forall>j<6. \<forall>ps'. (dubins_words_f64 ! j) (Fin 0) (Fin 0) (Fin 4) = Inr ps'
                \<and> dless (word_cost_f64 ps') PInf
                  \<longrightarrow> dle (word_cost_f64 ps) (word_cost_f64 ps')"
    by blast
  from e0 have "(dubins_words_f64 ! 0) (Fin 0) (Fin 0) (Fin 4) = Inr (Fin 0, Fin 4, Fin 0)
      \<and> dless (word_cost_f64 (Fin 0, Fin 4, Fin 0)) PInf"
    by (simp add: eligible_f64_def)
  moreover have "(0::nat) < 6" by simp
  ultimately have "dle (word_cost_f64 ps) (word_cost_f64 (Fin 0, Fin 4, Fin 0))"
    using m by blast
  then have le: "dle (word_cost_f64 ps) (Fin 4)" by (simp only: c4)
  from r have r': "dubins_init_normalised_f64 (Fin 0) (Fin 0) (Fin 4) ?P
      = (EDUBOK, \<lparr>qi_f = (Fin 9, Fin 9, Fin 9), param_f = ps, rho_f = Fin 9, type_f = int k\<rparr>)"
    by (simp add: dubins_init_normalised_f64_def)
  from k e le r' have one: "\<exists>k ps. k < 6 \<and> (dubins_words_f64 ! k) (Fin 0) (Fin 0) (Fin 4) = Inr ps
        \<and> dle (word_cost_f64 ps) (Fin 4)
        \<and> dubins_init_normalised_f64 (Fin 0) (Fin 0) (Fin 4) ?P
          = (EDUBOK, \<lparr>qi_f = (Fin 9, Fin 9, Fin 9), param_f = ps, rho_f = Fin 9, type_f = int k\<rparr>)"
    by blast
  have none: "\<forall>j<6. \<forall>ps. \<not> eligible_f64 dubins_words_f64 (Fin 0) (Fin 0) (Fin (2 ^ 600)) j ps"
    using no_eligible_big [OF refl] by blast
  from T [of dubins_words_f64 "Fin 0" "Fin 0" "Fin (2 ^ 600)" ?P, THEN conjunct1, THEN mp, OF none]
  have three: "dubins_init_normalised_f64_with dubins_words_f64 (Fin 0) (Fin 0) (Fin (2 ^ 600)) ?P
      = (EDUBNOPATH, ?P)" .
  have two: "dubins_init_normalised_f64_with ?T (Fin 0) (Fin 0) (Fin 4) ?P
      = (EDUBOK, \<lparr>qi_f = (Fin 9, Fin 9, Fin 9), param_f = (Fin 1, Fin 2, Fin 1), rho_f = Fin 9,
           type_f = 2\<rparr>)"
    by (simp add: dubins_init_normalised_f64_with_def init_step_f64_def word_cost_f64_def
        upt6 rnd_numeral rnd_zero Let_def)
  from one two three show ?thesis by blast
qed

section \<open>Parameters of a synthesized path\<close>































section \<open>Sub-paths\<close>

text \<open>
  The clamping of \<^verbatim>\<open>dubins_extract_subpath\<close> on a valid path: each step keeps a parameter
  that is not negative and not above the original, and a remainder that is not negative or
  NaN.
\<close>

lemma path_length_f64_nonneg:
  assumes "valid_path_f64 path"
  shows "nan_or_nonneg (dubins_path_length_f64 path)"
proof -
  from assms have rho: "dless (Fin 0) (rho_f path)"
    and nn: "dle (Fin 0) (at3f (param_f path) 0)" "dle (Fin 0) (at3f (param_f path) 1)"
      "dle (Fin 0) (at3f (param_f path) 2)"
    by (simp_all add: valid_path_f64_def)
  have "dle (Fin 0) (dadd (dadd (dadd (Fin 0) (at3f (param_f path) 0)) (at3f (param_f path) 1))
      (at3f (param_f path) 2))"
    by (intro dadd_nonneg nn) simp
  from dmul_nonneg [OF this rho] show ?thesis
    by (simp add: dubins_path_length_f64_def Let_def)
qed

lemma clamp_step:
  assumes "dle (Fin 0) p" and "nan_or_nonneg u"
  shows "dle (Fin 0) (dfmin p u)" and "dle (dfmin p u) p" and "nan_or_nonneg (dsub u (dfmin p u))"
proof -
  from assms(1) have pp: "dle p p" by (rule dle_refl_of)
  from assms show nn: "dle (Fin 0) (dfmin p u)"
    by (intro dfmin_nonneg) (simp_all add: nan_or_nonneg_def)
  from pp show "dle (dfmin p u) p" by (rule dfmin_le_left)
  show "nan_or_nonneg (dsub u (dfmin p u))"
  proof (cases "u = NaN")
    case True
    then show ?thesis by (simp add: nan_or_nonneg_def dsub_NaN_left)
  next
    case False
    with assms(2) have "dle (Fin 0) u" by (simp add: nan_or_nonneg_def)
    then have "dle u u" by (rule dle_refl_of)
    with pp have "dle (dfmin p u) u" by (rule dfmin_le_right)
    from dsub_nonneg [OF this] show ?thesis by (simp add: nan_or_nonneg_def)
  qed
qed

lemma extract_f64_unclamped:
  assumes "dle (at3f (param_f path) 0) (ddiv t (rho_f path))"
    and "dle (at3f (param_f path) 1) (dsub (ddiv t (rho_f path)) (at3f (param_f path) 0))"
    and "dle (at3f (param_f path) 2)
          (dsub (dsub (ddiv t (rho_f path)) (at3f (param_f path) 0)) (at3f (param_f path) 1))"
  shows "param_f (snd (dubins_extract_subpath_f64 path t newpath)) = param_f path"
proof -
  obtain p0 p1 p2 where p: "param_f path = (p0, p1, p2)" by (cases "param_f path") auto
  from assms show ?thesis
    by (simp add: p dubins_extract_subpath_f64_def Let_def dfmin_keep)
qed

text \<open>
  The path with the parameters \<open>(a, a, 1 / 4)\<close> and radius 1, where \<open>a\<close> is the binary64
  number nearest to one tenth. Its length is the binary64 number \<open>t\<close> nearest to \<open>0.45\<close>.
  Cut at \<open>t\<close>, the first remainder \<open>t - a\<close> lies half way between two binary64 numbers and
  rounds down, and the third parameter comes out one unit in the last place below \<open>1 / 4\<close>.
\<close>

lemma tenth_facts:
  assumes a: "a = 3602879701896397 / 2 ^ 55" and t: "t = 8106479329266893 / 2 ^ 54"
    and u: "u = 6305039478318694 / 2 ^ 54" and w: "w = 9007199254740991 / 2 ^ 55"
  shows "rnd a = Fin a" and "rnd (2 * a) = Fin (2 * a)" and "rnd (2 * a + 1 / 4) = Fin t"
    and "rnd t = Fin t" and "rnd (t - a) = Fin u" and "rnd (u - a) = Fin w"
    and "a < t" and "a \<le> u" and "w < 1 / 4" and "0 < a"
proof -
  show "rnd a = Fin a"
    by (rule rnd_exact [where m = 3602879701896397 and e = "- 55"]) (simp_all add: a huge_def)
  show "rnd (2 * a) = Fin (2 * a)"
    by (rule rnd_exact [where m = 3602879701896397 and e = "- 54"]) (simp_all add: a huge_def)
  have s: "2 * a + 1 / 4 = t" by (simp add: a t)
  show t': "rnd t = Fin t"
    by (rule rnd_exact [where m = 8106479329266893 and e = "- 54"]) (simp_all add: t huge_def)
  show "rnd (2 * a + 1 / 4) = Fin t" unfolding s by (rule t')
  have "rnd (t - a) = Fin (of_int 6305039478318694 * 2 powi (- 54))"
    by (rule rnd_eval [where L = "- 2"]) (simp_all add: a t huge_def rhe_def)
  then show "rnd (t - a) = Fin u" by (simp add: u)
  have d: "u - a = w" by (simp add: a u w)
  have "rnd w = Fin w"
    by (rule rnd_exact [where m = 9007199254740991 and e = "- 55"]) (simp_all add: w huge_def)
  then show "rnd (u - a) = Fin w" unfolding d .
  show "a < t" "a \<le> u" "w < 1 / 4" "0 < a" by (simp_all add: a t u w)
qed

lemma extract_tenth:
  assumes a: "a = 3602879701896397 / 2 ^ 55" and t: "t = 8106479329266893 / 2 ^ 54"
    and w: "w = 9007199254740991 / 2 ^ 55"
  shows "valid_path_f64
          \<lparr>qi_f = (Fin 0, Fin 0, Fin 0), param_f = (Fin a, Fin a, Fin (1 / 4)), rho_f = Fin 1, type_f = 0\<rparr>"
    and "dubins_path_length_f64
          \<lparr>qi_f = (Fin 0, Fin 0, Fin 0), param_f = (Fin a, Fin a, Fin (1 / 4)), rho_f = Fin 1, type_f = 0\<rparr>
        = Fin t"
    and "dubins_extract_subpath_f64
          \<lparr>qi_f = (Fin 0, Fin 0, Fin 0), param_f = (Fin a, Fin a, Fin (1 / 4)), rho_f = Fin 1, type_f = 0\<rparr>
          (Fin t) newpath
        = (EDUBOK,
           \<lparr>qi_f = (Fin 0, Fin 0, Fin 0), param_f = (Fin a, Fin a, Fin w), rho_f = Fin 1, type_f = 0\<rparr>)"
proof -
  define u :: real where "u = 6305039478318694 / 2 ^ 54"
  note f = tenth_facts [OF a t u_def w]
  from f(10) show "valid_path_f64
          \<lparr>qi_f = (Fin 0, Fin 0, Fin 0), param_f = (Fin a, Fin a, Fin (1 / 4)), rho_f = Fin 1, type_f = 0\<rparr>"
    by (simp add: valid_path_f64_def)
  show "dubins_path_length_f64
          \<lparr>qi_f = (Fin 0, Fin 0, Fin 0), param_f = (Fin a, Fin a, Fin (1 / 4)), rho_f = Fin 1, type_f = 0\<rparr>
        = Fin t"
    by (simp add: dubins_path_length_f64_def Let_def f(1,2,3,4))
  have m0: "dfmin (Fin a) (Fin t) = Fin a" using f(7) by simp
  have m1: "dfmin (Fin a) (Fin u) = Fin a" using f(8) by simp
  have m2: "dfmin (Fin (1 / 4)) (Fin w) = Fin w" using f(9) by simp
  have s1: "dsub (Fin t) (Fin a) = Fin u" using f(5) by (simp add: dsub_def)
  have s2: "dsub (Fin u) (Fin a) = Fin w" using f(6) by (simp add: dsub_def)
  have d: "ddiv (Fin t) (Fin 1) = Fin t" using f(4) by simp
  show "dubins_extract_subpath_f64
          \<lparr>qi_f = (Fin 0, Fin 0, Fin 0), param_f = (Fin a, Fin a, Fin (1 / 4)), rho_f = Fin 1, type_f = 0\<rparr>
          (Fin t) newpath
        = (EDUBOK,
           \<lparr>qi_f = (Fin 0, Fin 0, Fin 0), param_f = (Fin a, Fin a, Fin w), rho_f = Fin 1, type_f = 0\<rparr>)"
    unfolding dubins_extract_subpath_f64_def Let_def
    using f(7,8,9) by (cases newpath) (simp add: f(4) s1 s2)
qed

text \<open>
  Claim C6, as stated, fails: a valid path cut at its own length need not come back equal.
  The path with the parameters \<open>(a, a, 1 / 4)\<close> above, cut at its length, has the third
  parameter \<open>9007199254740991 / 2 ^ 55\<close>, which is not \<open>1 / 4\<close>.
\<close>

theorem extract_subpath_f64_beyond_end_counterexample:
  "valid_path_f64
     \<lparr>qi_f = (Fin 0, Fin 0, Fin 0),
      param_f = (Fin (3602879701896397 / 2 ^ 55), Fin (3602879701896397 / 2 ^ 55), Fin (1 / 4)),
      rho_f = Fin 1, type_f = 0\<rparr>
   \<and> dubins_path_length_f64
     \<lparr>qi_f = (Fin 0, Fin 0, Fin 0),
      param_f = (Fin (3602879701896397 / 2 ^ 55), Fin (3602879701896397 / 2 ^ 55), Fin (1 / 4)),
      rho_f = Fin 1, type_f = 0\<rparr> = Fin (8106479329266893 / 2 ^ 54)
   \<and> dubins_extract_subpath_f64
     \<lparr>qi_f = (Fin 0, Fin 0, Fin 0),
      param_f = (Fin (3602879701896397 / 2 ^ 55), Fin (3602879701896397 / 2 ^ 55), Fin (1 / 4)),
      rho_f = Fin 1, type_f = 0\<rparr>
     (Fin (8106479329266893 / 2 ^ 54))
     \<lparr>qi_f = (Fin 9, Fin 9, Fin 9), param_f = (Fin 9, Fin 9, Fin 9), rho_f = Fin 9, type_f = 9\<rparr>
    = (EDUBOK,
     \<lparr>qi_f = (Fin 0, Fin 0, Fin 0),
      param_f = (Fin (3602879701896397 / 2 ^ 55), Fin (3602879701896397 / 2 ^ 55),
                 Fin (9007199254740991 / 2 ^ 55)),
      rho_f = Fin 1, type_f = 0\<rparr>)
   \<and> Fin (9007199254740991 / 2 ^ 55) \<noteq> Fin (1 / 4)"
  using extract_tenth [OF refl refl refl]
  by simp

text \<open>
  Claim C6, amended. For every valid path and every \<open>t\<close> that is not below
  \<^verbatim>\<open>dubins_path_length\<close> of the path, \<^verbatim>\<open>dubins_extract_subpath\<close> succeeds and returns a valid path
  with the initial pose, the radius and the word of the original, whose three parameters
  are each at most the original parameter. They are the original parameters when the three
  comparisons of the clamping hold in binary64 arithmetic: \<open>param[0] \<le> t / rho\<close>,
  \<open>param[1] \<le> t / rho - param[0]\<close> and \<open>param[2] \<le> t / rho - param[0] - param[1]\<close>, which
  \<open>t\<close> at or above the length does not ensure.
\<close>

theorem extract_subpath_f64_beyond_end:
  assumes "valid_path_f64 path" and "dle (dubins_path_length_f64 path) t"
  shows "fst (dubins_extract_subpath_f64 path t newpath) = EDUBOK
     \<and> qi_f (snd (dubins_extract_subpath_f64 path t newpath)) = qi_f path
     \<and> rho_f (snd (dubins_extract_subpath_f64 path t newpath)) = rho_f path
     \<and> type_f (snd (dubins_extract_subpath_f64 path t newpath)) = type_f path
     \<and> dle (at3f (param_f (snd (dubins_extract_subpath_f64 path t newpath))) 0)
           (at3f (param_f path) 0)
     \<and> dle (at3f (param_f (snd (dubins_extract_subpath_f64 path t newpath))) 1)
           (at3f (param_f path) 1)
     \<and> dle (at3f (param_f (snd (dubins_extract_subpath_f64 path t newpath))) 2)
           (at3f (param_f path) 2)
     \<and> valid_path_f64 (snd (dubins_extract_subpath_f64 path t newpath))
     \<and> (dle (at3f (param_f path) 0) (ddiv t (rho_f path))
          \<and> dle (at3f (param_f path) 1) (dsub (ddiv t (rho_f path)) (at3f (param_f path) 0))
          \<and> dle (at3f (param_f path) 2)
              (dsub (dsub (ddiv t (rho_f path)) (at3f (param_f path) 0)) (at3f (param_f path) 1))
        \<longrightarrow> param_f (snd (dubins_extract_subpath_f64 path t newpath)) = param_f path)"
proof -
  define new where "new = snd (dubins_extract_subpath_f64 path t newpath)"
  define tp where "tp = ddiv t (rho_f path)"
  from assms(1) have rho: "dless (Fin 0) (rho_f path)"
    and nn: "dle (Fin 0) (at3f (param_f path) 0)" "dle (Fin 0) (at3f (param_f path) 1)"
      "dle (Fin 0) (at3f (param_f path) 2)"
    and ty: "0 \<le> type_f path" "type_f path \<le> 5"
    by (simp_all add: valid_path_f64_def)
  have ok: "fst (dubins_extract_subpath_f64 path t newpath) = EDUBOK"
    by (simp add: dubins_extract_subpath_f64_def Let_def)
  have p0: "at3f (param_f new) 0 = dfmin (at3f (param_f path) 0) tp"
    and p1: "at3f (param_f new) 1
        = dfmin (at3f (param_f path) 1) (dsub tp (at3f (param_f new) 0))"
    and p2: "at3f (param_f new) 2
        = dfmin (at3f (param_f path) 2)
            (dsub (dsub tp (at3f (param_f new) 0)) (at3f (param_f new) 1))"
    and rest: "rho_f new = rho_f path" "type_f new = type_f path"
    by (simp_all add: new_def tp_def dubins_extract_subpath_f64_def Let_def)
  have q: "qi_f new = qi_f path"
    by (cases "qi_f path") (simp add: new_def dubins_extract_subpath_f64_def Let_def)
  have "dle (Fin 0) t"
  proof -
    from assms(2) have "dubins_path_length_f64 path \<noteq> NaN" by (cases t) auto
    with path_length_f64_nonneg [OF assms(1)] have "dle (Fin 0) (dubins_path_length_f64 path)"
      by (simp add: nan_or_nonneg_def)
    then show ?thesis using assms(2) by (rule dle_trans)
  qed
  then have u0: "nan_or_nonneg tp"
    unfolding tp_def using rho by (rule ddiv_nonneg)
  note s0 = clamp_step [OF nn(1) u0, folded p0]
  note s1 = clamp_step [OF nn(2) s0(3), folded p1]
  note s2 = clamp_step [OF nn(3) s1(3), folded p2]
  from s0(1) s1(1) s2(1) rho ty rest have v: "valid_path_f64 new"
    by (simp add: valid_path_f64_def)
  have un: "dle (at3f (param_f path) 0) tp
      \<and> dle (at3f (param_f path) 1) (dsub tp (at3f (param_f path) 0))
      \<and> dle (at3f (param_f path) 2) (dsub (dsub tp (at3f (param_f path) 0)) (at3f (param_f path) 1))
    \<longrightarrow> param_f new = param_f path"
    unfolding new_def tp_def using extract_f64_unclamped [of path t newpath] by blast
  from ok q rest s0(2) s1(2) s2(2) v un show ?thesis
    unfolding new_def tp_def by blast
qed

theorem extract_subpath_f64_beyond_end_witness:
  "valid_path_f64 \<lparr>qi_f = (Fin 5, Fin 6, Fin 1), param_f = (Fin 1, Fin 2, Fin 3), rho_f = Fin 2, type_f = 1\<rparr>
   \<and> dubins_path_length_f64
        \<lparr>qi_f = (Fin 5, Fin 6, Fin 1), param_f = (Fin 1, Fin 2, Fin 3), rho_f = Fin 2, type_f = 1\<rparr>
      = Fin 12
   \<and> dubins_extract_subpath_f64
        \<lparr>qi_f = (Fin 5, Fin 6, Fin 1), param_f = (Fin 1, Fin 2, Fin 3), rho_f = Fin 2, type_f = 1\<rparr>
        (Fin 12)
        \<lparr>qi_f = (Fin 9, Fin 9, Fin 9), param_f = (Fin 9, Fin 9, Fin 9), rho_f = Fin 9, type_f = 9\<rparr>
      = (EDUBOK,
        \<lparr>qi_f = (Fin 5, Fin 6, Fin 1), param_f = (Fin 1, Fin 2, Fin 3), rho_f = Fin 2, type_f = 1\<rparr>)"
proof -
  let ?P = "\<lparr>qi_f = (Fin 5, Fin 6, Fin 1), param_f = (Fin 1, Fin 2, Fin 3), rho_f = Fin 2, type_f = 1\<rparr>"
  let ?N = "\<lparr>qi_f = (Fin 9, Fin 9, Fin 9), param_f = (Fin 9, Fin 9, Fin 9), rho_f = Fin 9, type_f = 9\<rparr>"
  have v: "valid_path_f64 ?P" by (simp add: valid_path_f64_def)
  have len: "dubins_path_length_f64 ?P = Fin 12"
    by (simp add: dubins_path_length_f64_def rnd_numeral rnd_one rnd_zero)
  have le: "dle (dubins_path_length_f64 ?P) (Fin 12)" by (simp only: len) simp
  have un: "dle (at3f (param_f ?P) 0) (ddiv (Fin 12) (rho_f ?P))
          \<and> dle (at3f (param_f ?P) 1) (dsub (ddiv (Fin 12) (rho_f ?P)) (at3f (param_f ?P) 0))
          \<and> dle (at3f (param_f ?P) 2)
              (dsub (dsub (ddiv (Fin 12) (rho_f ?P)) (at3f (param_f ?P) 0)) (at3f (param_f ?P) 1))"
    by (simp add: dsub_def rnd_numeral)
  note T = extract_subpath_f64_beyond_end [OF v le, of ?N]
  from T un have "fst (dubins_extract_subpath_f64 ?P (Fin 12) ?N) = EDUBOK"
    and "qi_f (snd (dubins_extract_subpath_f64 ?P (Fin 12) ?N)) = qi_f ?P"
    and "rho_f (snd (dubins_extract_subpath_f64 ?P (Fin 12) ?N)) = rho_f ?P"
    and "type_f (snd (dubins_extract_subpath_f64 ?P (Fin 12) ?N)) = type_f ?P"
    and "param_f (snd (dubins_extract_subpath_f64 ?P (Fin 12) ?N)) = param_f ?P"
    by blast+
  then have "dubins_extract_subpath_f64 ?P (Fin 12) ?N = (EDUBOK, ?P)"
    by (cases "dubins_extract_subpath_f64 ?P (Fin 12) ?N") simp
  with v len show ?thesis by blast
qed

text \<open>
  Claim C7, as stated, fails: a negative \<open>t\<close> need not give a negative first parameter. On
  a valid path of radius 2, at \<open>t = - e\<close> with \<open>e\<close> the least subnormal number, the quotient
  \<open>t / rho\<close> rounds to zero; the three parameters of the result are zero and the result is a
  valid path.
\<close>

theorem extract_subpath_f64_negative_counterexample:
  "valid_path_f64 \<lparr>qi_f = (Fin 5, Fin 6, Fin 1), param_f = (Fin 1, Fin 2, Fin 3), rho_f = Fin 2, type_f = 1\<rparr>
   \<and> dless (Fin (- (2 powi (- 1074)))) (Fin 0)
   \<and> dubins_extract_subpath_f64
        \<lparr>qi_f = (Fin 5, Fin 6, Fin 1), param_f = (Fin 1, Fin 2, Fin 3), rho_f = Fin 2, type_f = 1\<rparr>
        (Fin (- (2 powi (- 1074))))
        \<lparr>qi_f = (Fin 9, Fin 9, Fin 9), param_f = (Fin 9, Fin 9, Fin 9), rho_f = Fin 9, type_f = 9\<rparr>
      = (EDUBOK,
        \<lparr>qi_f = (Fin 5, Fin 6, Fin 1), param_f = (Fin 0, Fin 0, Fin 0), rho_f = Fin 2, type_f = 1\<rparr>)
   \<and> valid_path_f64
        \<lparr>qi_f = (Fin 5, Fin 6, Fin 1), param_f = (Fin 0, Fin 0, Fin 0), rho_f = Fin 2, type_f = 1\<rparr>"
proof -
  have q: "- (2 powi (- 1074)) / 2 = - ((2::real) powi (- 1075))"
    by (simp only: half_quantum)
  have "rnd (- ((2::real) powi (- 1075))) = Fin 0"
    by (rule rnd_tiny) (simp del: power_int_numeral_neg_numeral)
  then have "rnd (- (2 powi (- 1074)) / 2) = Fin 0"
    by (simp only: q)
  then have d: "rnd (- (2 powi (- 1074) / 2)) = Fin 0"
    by (simp del: power_int_numeral_neg_numeral)
  have neg: "dless (Fin (- (2 powi (- 1074)))) (Fin 0)"
    by (simp del: power_int_numeral_neg_numeral)
  have "dubins_extract_subpath_f64
        \<lparr>qi_f = (Fin 5, Fin 6, Fin 1), param_f = (Fin 1, Fin 2, Fin 3), rho_f = Fin 2, type_f = 1\<rparr>
        (Fin (- (2 powi (- 1074))))
        \<lparr>qi_f = (Fin 9, Fin 9, Fin 9), param_f = (Fin 9, Fin 9, Fin 9), rho_f = Fin 9, type_f = 9\<rparr>
      = (EDUBOK,
        \<lparr>qi_f = (Fin 5, Fin 6, Fin 1), param_f = (Fin 0, Fin 0, Fin 0), rho_f = Fin 2, type_f = 1\<rparr>)"
    by (simp add: dubins_extract_subpath_f64_def Let_def d dsub_def rnd_zero
        del: power_int_numeral_neg_numeral)
  with neg show ?thesis by (simp add: valid_path_f64_def del: power_int_numeral_neg_numeral)
qed

text \<open>
  Claim C7, amended. \<^verbatim>\<open>dubins_extract_subpath\<close> reports success on every input. For a valid
  path and a finite \<open>t < 0\<close> the first parameter of the result is the binary64 quotient
  \<open>t / rho\<close>, which is not positive. When the quotient is negative the result violates the
  invariant of non-negative parameters; it is negative whenever the exact quotient is below
  \<open>- (2 powi (- 1075))\<close>, half the least subnormal number. Otherwise the quotient is zero, and
  then the three parameters of the result are zero and the result is a valid path.
\<close>

theorem extract_subpath_f64_negative:
  "fst (dubins_extract_subpath_f64 path t newpath) = EDUBOK
   \<and> (valid_path_f64 path \<and> t = Fin x \<and> x < 0 \<longrightarrow>
        at3f (param_f (snd (dubins_extract_subpath_f64 path t newpath))) 0 = ddiv t (rho_f path)
        \<and> dle (ddiv t (rho_f path)) (Fin 0)
        \<and> (dless (ddiv t (rho_f path)) (Fin 0) \<longrightarrow>
              \<not> valid_path_f64 (snd (dubins_extract_subpath_f64 path t newpath)))
        \<and> (ddiv t (rho_f path) = Fin 0 \<longrightarrow>
              param_f (snd (dubins_extract_subpath_f64 path t newpath)) = (Fin 0, Fin 0, Fin 0)
              \<and> valid_path_f64 (snd (dubins_extract_subpath_f64 path t newpath)))
        \<and> (\<forall>r. rho_f path = Fin r \<and> x / r < - (2 powi (- 1075)) \<longrightarrow>
              dless (ddiv t (rho_f path)) (Fin 0))
        \<and> (\<forall>r. rho_f path = Fin r \<and> - (2 powi (- 1075)) \<le> x / r \<longrightarrow>
              ddiv t (rho_f path) = Fin 0))"
proof -
  define new where "new = snd (dubins_extract_subpath_f64 path t newpath)"
  define tp where "tp = ddiv t (rho_f path)"
  have ok: "fst (dubins_extract_subpath_f64 path t newpath) = EDUBOK"
    by (simp add: dubins_extract_subpath_f64_def Let_def)
  have p0: "at3f (param_f new) 0 = dfmin (at3f (param_f path) 0) tp"
    and p1: "at3f (param_f new) 1
        = dfmin (at3f (param_f path) 1) (dsub tp (at3f (param_f new) 0))"
    and p2: "at3f (param_f new) 2
        = dfmin (at3f (param_f path) 2)
            (dsub (dsub tp (at3f (param_f new) 0)) (at3f (param_f new) 1))"
    and rest: "rho_f new = rho_f path" "type_f new = type_f path"
    by (simp_all add: new_def tp_def dubins_extract_subpath_f64_def Let_def)
  have ps: "param_f new = (at3f (param_f new) 0, at3f (param_f new) 1, at3f (param_f new) 2)"
    by (cases "param_f new") simp
  have main: "at3f (param_f new) 0 = tp
        \<and> dle tp (Fin 0)
        \<and> (dless tp (Fin 0) \<longrightarrow> \<not> valid_path_f64 new)
        \<and> (tp = Fin 0 \<longrightarrow> param_f new = (Fin 0, Fin 0, Fin 0) \<and> valid_path_f64 new)
        \<and> (\<forall>r. rho_f path = Fin r \<and> x / r < - (2 powi (- 1075)) \<longrightarrow> dless tp (Fin 0))
        \<and> (\<forall>r. rho_f path = Fin r \<and> - (2 powi (- 1075)) \<le> x / r \<longrightarrow> tp = Fin 0)"
    if v: "valid_path_f64 path" and t: "t = Fin x" and x: "x < 0"
  proof -
    from v have rho: "dless (Fin 0) (rho_f path)"
      and nn: "dle (Fin 0) (at3f (param_f path) 0)" "dle (Fin 0) (at3f (param_f path) 1)"
        "dle (Fin 0) (at3f (param_f path) 2)"
      and ty: "0 \<le> type_f path" "type_f path \<le> 5"
      by (simp_all add: valid_path_f64_def)
    have le: "dle tp (Fin 0)"
      unfolding tp_def t by (rule ddiv_neg_pos [OF x rho])
    have first: "at3f (param_f new) 0 = tp"
      unfolding p0 by (rule dfmin_nonpos [OF nn(1) le])
    have neg: "\<not> valid_path_f64 new" if "dless tp (Fin 0)"
    proof -
      from that have "\<not> dle (Fin 0) tp" by (cases tp) simp_all
      then show ?thesis by (simp add: valid_path_f64_def first)
    qed
    have zero: "param_f new = (Fin 0, Fin 0, Fin 0) \<and> valid_path_f64 new" if z: "tp = Fin 0"
    proof -
      have a: "at3f (param_f new) 0 = Fin 0" by (simp add: first z)
      have b: "at3f (param_f new) 1 = Fin 0"
        unfolding p1 a z dsub_zero_zero by (rule dfmin_zero_right [OF nn(2)])
      have c: "at3f (param_f new) 2 = Fin 0"
        unfolding p2 a b z dsub_zero_zero by (rule dfmin_zero_right [OF nn(3)])
      from ps a b c have "param_f new = (Fin 0, Fin 0, Fin 0)" by simp
      with rho ty rest show ?thesis by (simp add: valid_path_f64_def)
    qed
    have strict: "dless tp (Fin 0)" if r: "rho_f path = Fin r" and lt: "x / r < - (2 powi (- 1075))" for r
    proof -
      from rho r have "r \<noteq> 0" by simp
      then have "tp = rnd (x / r)" by (simp add: tp_def t r)
      with rnd_negative [OF lt] show ?thesis by simp
    qed
    have under: "tp = Fin 0" if r: "rho_f path = Fin r" and ge: "- (2 powi (- 1075)) \<le> x / r" for r
    proof -
      from rho r have rp: "0 < r" by simp
      then have tpv: "tp = rnd (x / r)" by (simp add: tp_def t r)
      from rp x have "x / r \<le> 0" by (simp add: divide_le_0_iff)
      with ge have "\<bar>x / r\<bar> \<le> 2 powi (- 1075)" by linarith
      then show ?thesis unfolding tpv by (rule rnd_tiny)
    qed
    from first le neg zero strict under show ?thesis by blast
  qed
  from ok main show ?thesis
    unfolding new_def tp_def by blast
qed

theorem extract_subpath_f64_negative_witness:
  "valid_path_f64 \<lparr>qi_f = (Fin 5, Fin 6, Fin 1), param_f = (Fin 1, Fin 2, Fin 3), rho_f = Fin 2, type_f = 1\<rparr>
   \<and> (- 4 :: real) < 0
   \<and> (- 4 :: real) / 2 < - (2 powi (- 1075))
   \<and> fst (dubins_extract_subpath_f64
        \<lparr>qi_f = (Fin 5, Fin 6, Fin 1), param_f = (Fin 1, Fin 2, Fin 3), rho_f = Fin 2, type_f = 1\<rparr>
        (Fin (- 4))
        \<lparr>qi_f = (Fin 9, Fin 9, Fin 9), param_f = (Fin 9, Fin 9, Fin 9), rho_f = Fin 9, type_f = 9\<rparr>)
      = EDUBOK
   \<and> at3f (param_f (snd (dubins_extract_subpath_f64
        \<lparr>qi_f = (Fin 5, Fin 6, Fin 1), param_f = (Fin 1, Fin 2, Fin 3), rho_f = Fin 2, type_f = 1\<rparr>
        (Fin (- 4))
        \<lparr>qi_f = (Fin 9, Fin 9, Fin 9), param_f = (Fin 9, Fin 9, Fin 9), rho_f = Fin 9, type_f = 9\<rparr>))) 0
      = Fin (- 2)
   \<and> \<not> valid_path_f64 (snd (dubins_extract_subpath_f64
        \<lparr>qi_f = (Fin 5, Fin 6, Fin 1), param_f = (Fin 1, Fin 2, Fin 3), rho_f = Fin 2, type_f = 1\<rparr>
        (Fin (- 4))
        \<lparr>qi_f = (Fin 9, Fin 9, Fin 9), param_f = (Fin 9, Fin 9, Fin 9), rho_f = Fin 9, type_f = 9\<rparr>))
   \<and> - (2 powi (- 1075)) \<le> - (2 powi (- 1074)) / (2 :: real)
   \<and> valid_path_f64 (snd (dubins_extract_subpath_f64
        \<lparr>qi_f = (Fin 5, Fin 6, Fin 1), param_f = (Fin 1, Fin 2, Fin 3), rho_f = Fin 2, type_f = 1\<rparr>
        (Fin (- (2 powi (- 1074))))
        \<lparr>qi_f = (Fin 9, Fin 9, Fin 9), param_f = (Fin 9, Fin 9, Fin 9), rho_f = Fin 9, type_f = 9\<rparr>))"
proof -
  let ?P = "\<lparr>qi_f = (Fin 5, Fin 6, Fin 1), param_f = (Fin 1, Fin 2, Fin 3), rho_f = Fin 2, type_f = 1\<rparr>"
  let ?N = "\<lparr>qi_f = (Fin 9, Fin 9, Fin 9), param_f = (Fin 9, Fin 9, Fin 9), rho_f = Fin 9, type_f = 9\<rparr>"
  have v: "valid_path_f64 ?P" by (simp add: valid_path_f64_def)
  have n4: "(- 4 :: real) < 0" by simp
  have pw: "(0::real) < 2 powi (- 1075)" by (rule zero_less_power_int) simp
  have "(2::real) powi (- 1075) \<le> 2 powi 0"
    by (rule power_int_increasing) simp_all
  then have big: "(- 4 :: real) / 2 < - (2 powi (- 1075))" by simp
  have q: "- (2 powi (- 1074)) / 2 = - ((2::real) powi (- 1075))"
    by (simp only: half_quantum)
  then have small: "- (2 powi (- 1075)) \<le> - (2 powi (- 1074)) / (2 :: real)" by simp
  have tn: "- ((2::real) powi (- 1074)) < 0"
    using zero_less_power_int [of "2::real" "- 1074"] by simp
  have d4: "ddiv (Fin (- 4)) (rho_f ?P) = Fin (- 2)"
    by (simp add: rnd_neg_numeral)
  note A = extract_subpath_f64_negative [of ?P "Fin (- 4)" ?N "- 4"]
  note B = extract_subpath_f64_negative [of ?P "Fin (- (2 powi (- 1074)))" ?N "- (2 powi (- 1074))"]
  from A have ok: "fst (dubins_extract_subpath_f64 ?P (Fin (- 4)) ?N) = EDUBOK" by blast
  from A v n4 have a1: "at3f (param_f (snd (dubins_extract_subpath_f64 ?P (Fin (- 4)) ?N))) 0
      = ddiv (Fin (- 4)) (rho_f ?P)"
    by blast
  have r2: "rho_f ?P = Fin 2" by simp
  from A v n4 have a2: "\<forall>r. rho_f ?P = Fin r \<and> (- 4) / r < - (2 powi (- 1075)) \<longrightarrow>
              dless (ddiv (Fin (- 4)) (rho_f ?P)) (Fin 0)"
    by blast
  with r2 big have a3: "dless (ddiv (Fin (- 4)) (rho_f ?P)) (Fin 0)" by blast
  from A v n4 have "dless (ddiv (Fin (- 4)) (rho_f ?P)) (Fin 0) \<longrightarrow>
              \<not> valid_path_f64 (snd (dubins_extract_subpath_f64 ?P (Fin (- 4)) ?N))"
    by blast
  with a3 have a4: "\<not> valid_path_f64 (snd (dubins_extract_subpath_f64 ?P (Fin (- 4)) ?N))"
    by blast
  from B v tn have b1: "\<forall>r. rho_f ?P = Fin r \<and> - (2 powi (- 1075)) \<le> - (2 powi (- 1074)) / r \<longrightarrow>
              ddiv (Fin (- (2 powi (- 1074)))) (rho_f ?P) = Fin 0"
    by blast
  with r2 small have b2: "ddiv (Fin (- (2 powi (- 1074)))) (rho_f ?P) = Fin 0" by blast
  from B v tn have "ddiv (Fin (- (2 powi (- 1074)))) (rho_f ?P) = Fin 0 \<longrightarrow>
      valid_path_f64 (snd (dubins_extract_subpath_f64 ?P (Fin (- (2 powi (- 1074)))) ?N))"
    by blast
  with b2 have b3: "valid_path_f64 (snd (dubins_extract_subpath_f64 ?P (Fin (- (2 powi (- 1074)))) ?N))"
    by blast
  from a1 have a1': "at3f (param_f (snd (dubins_extract_subpath_f64 ?P (Fin (- 4)) ?N))) 0 = Fin (- 2)"
    by (simp only: d4)
  from v n4 big ok a1' a4 small b3 show ?thesis by blast
qed

section \<open>Stepped sampling\<close>

















end
